theory Spec2Isabelle
  imports
    Complex_Main
    "HOL-Library.Char_ord"
    "HOL-Library.List_Lexorder"
    "HOL-Library.Product_Lexorder"
    "HOL-Library.Multiset"
begin

section \<open>Data model\<close>

text \<open>
  Python floats are idealised as real numbers: rounding error, NaN and the domain
  errors of \<open>math.sqrt\<close> are outside this model.  The one exception is the section
  on double-precision arithmetic, which rounds every operation of the weighted average
  as the machine does.  A pandas cell that may be missing (NaN, NaT) is an \<open>option\<close>;
  an instant is a real number of seconds.
\<close>

datatype label = CoTraveler | Static | Unknown

datatype py_error = ValueError | SystemExit

text \<open>
  One row of the merged frame that \<open>access_point_classifier.py\<close> and
  \<open>co_traveler_analysis.py\<close> group by \<open>(mac, ssid_filled)\<close>.
\<close>

record detection =
  mac :: string
  ssid_filled :: string
  time_dt :: "real option"
  rssi :: "real option"
  latitude :: real
  longitude :: real
  source_file :: string

section \<open>Distance primitive\<close>

definition radians :: "real \<Rightarrow> real" where
  "radians x = x * pi / 180"

text \<open>\<open>math.atan2(y, x)\<close>: the angle of the point \<open>(x, y)\<close> in \<open>(-pi, pi]\<close>.\<close>

definition atan2 :: "real \<Rightarrow> real \<Rightarrow> real" where
  "atan2 y x =
     (if 0 < x then arctan (y / x)
      else if x < 0 then (if 0 \<le> y then arctan (y / x) + pi else arctan (y / x) - pi)
      else if 0 < y then pi / 2
      else if y < 0 then - (pi / 2)
      else 0)"

text \<open>The same \<open>haversine\<close> is repeated in every script of the repository.\<close>

definition haversine :: "real \<Rightarrow> real \<Rightarrow> real \<Rightarrow> real \<Rightarrow> real" where
  "haversine lat1 lon1 lat2 lon2 =
     (let R = 6371000;
          phi1 = radians lat1; phi2 = radians lat2;
          dphi = radians (lat2 - lat1);
          dlambda = radians (lon2 - lon1);
          a = (sin (dphi / 2))\<^sup>2 + cos phi1 * cos phi2 * (sin (dlambda / 2))\<^sup>2;
          c = 2 * atan2 (sqrt a) (sqrt (1 - a))
      in R * c)"

section \<open>Python and pandas helpers\<close>

text \<open>
  The doubly nested loop \<open>for i in range(n): for j in range(i + 1, n): body\<close> over
  the positions of a list, with the loop state threaded through the body.
\<close>

definition for_pairs :: "('s \<Rightarrow> 'a \<Rightarrow> 'a \<Rightarrow> 's) \<Rightarrow> 'a list \<Rightarrow> 's \<Rightarrow> 's" where
  "for_pairs body xs s =
     foldl (\<lambda>s i. foldl (\<lambda>s j. body s (xs ! i) (xs ! j)) s [Suc i..<length xs])
       s [0..<length xs]"

text \<open>
  Comparison of two pandas timestamps: every comparison with \<open>NaT\<close> is false.
\<close>

definition ts_lt :: "real option \<Rightarrow> real option \<Rightarrow> bool" where
  "ts_lt a b = (case (a, b) of (Some x, Some y) \<Rightarrow> x < y | _ \<Rightarrow> False)"

text \<open>
  The builtins \<open>min\<close> and \<open>max\<close> on a list: the first element is kept until a
  later one compares smaller (greater); an empty list raises \<open>ValueError\<close>.
\<close>

fun py_min :: "real option list \<Rightarrow> py_error + real option" where
  "py_min [] = Inl ValueError"
| "py_min (t # ts) = Inr (foldl (\<lambda>m x. if ts_lt x m then x else m) t ts)"

fun py_max :: "real option list \<Rightarrow> py_error + real option" where
  "py_max [] = Inl ValueError"
| "py_max (t # ts) = Inr (foldl (\<lambda>m x. if ts_lt m x then x else m) t ts)"

text \<open>\<open>Series.dropna()\<close>, and \<open>Series.min()\<close>, \<open>Series.max()\<close>, which skip missing cells.\<close>

definition dropna :: "'a option list \<Rightarrow> 'a list" where
  "dropna xs = List.map_filter id xs"

definition series_min :: "real option list \<Rightarrow> real option" where
  "series_min xs = (let vs = dropna xs in if vs = [] then None else Some (Min (set vs)))"

definition series_max :: "real option list \<Rightarrow> real option" where
  "series_max xs = (let vs = dropna xs in if vs = [] then None else Some (Max (set vs)))"

text \<open>\<open>Series.mean()\<close> of a non-empty numeric column.\<close>

definition mean :: "real list \<Rightarrow> real" where
  "mean xs = sum_list xs / real (length xs)"

text \<open>\<open>", ".join(sorted(set(xs)))\<close>.\<close>

fun join :: "string \<Rightarrow> string list \<Rightarrow> string" where
  "join sep [] = []"
| "join sep [x] = x"
| "join sep (x # y # ys) = x @ sep @ join sep (y # ys)"

definition sorted_set :: "string list \<Rightarrow> string list" where
  "sorted_set xs = sort (remdups xs)"

text \<open>
  \<open>DataFrame.groupby(key)\<close>: one group per distinct key, keys in sorted order, the
  rows of a group in their original order.
\<close>

definition groupby :: "('r \<Rightarrow> 'k::linorder) \<Rightarrow> 'r list \<Rightarrow> ('k \<times> 'r list) list" where
  "groupby key rows = map (\<lambda>k. (k, filter (\<lambda>r. key r = k) rows)) (sort (remdups (map key rows)))"

section \<open>\<open>access_point_classifier.py\<close>\<close>

definition COTRAVELER_DIST_THRESHOLD :: real where
  "COTRAVELER_DIST_THRESHOLD = 1000"

definition STATIC_AP_DIST_THRESHOLD :: real where
  "STATIC_AP_DIST_THRESHOLD = 300"

text \<open>
  \<open>_compute_static_ap_coords\<close>: a missing RSSI is filled with \<open>-130\<close>, so its weight
  is \<open>0\<close>; \<open>if total_weight:\<close> tests that the sum is not zero.
\<close>

definition compute_static_ap_coords :: "detection list \<Rightarrow> real \<times> real" where
  "compute_static_ap_coords grp =
     (let filled = map (\<lambda>r. case rssi r of None \<Rightarrow> - 130 | Some v \<Rightarrow> v) grp;
          weights = map (\<lambda>v. max 0 (130 + v)) filled;
          total_weight = sum_list weights
      in if total_weight \<noteq> 0
         then (sum_list (map2 (*) (map latitude grp) weights) / total_weight,
               sum_list (map2 (*) (map longitude grp) weights) / total_weight)
         else (mean (map latitude grp), mean (map longitude grp)))"

text \<open>
  One entry of \<open>classified\<close>.  \<open>lat\<close> and \<open>lon\<close> hold a number or the empty string
  (\<open>None\<close>); \<open>max_dist\<close> holds a number or Python's \<open>None\<close>.
\<close>

record ap_result =
  ap_mac :: string
  ap_ssid :: string
  classification :: label
  first_seen :: "real option"
  last_seen :: "real option"
  lat :: "real option"
  lon :: "real option"
  max_dist :: "real option"
  coords :: "(real \<times> real) list"
  source_files :: string

text \<open>
  The body of the loop over the groups in \<open>classify\<close>.  The running maximum starts as
  \<open>None\<close>; \<open>if max_dist:\<close> is Python truthiness, false for \<open>None\<close> and for \<open>0.0\<close>.
\<close>

definition classify_group :: "string \<Rightarrow> string \<Rightarrow> detection list \<Rightarrow> ap_result" where
  "classify_group m s records =
     (let cs = map (\<lambda>r. (latitude r, longitude r)) records;
          (lat0, lon0) = compute_static_ap_coords records;
          md = (if length cs > 1
                then for_pairs
                       (\<lambda>acc ci cj.
                          let dist = haversine (fst ci) (snd ci) (fst cj) (snd cj)
                          in case acc of None \<Rightarrow> Some dist
                             | Some v \<Rightarrow> if dist > v then Some dist else acc)
                       cs None
                else None);
          (cls, la, lo) =
            (case md of
               None \<Rightarrow> (Unknown, Some lat0, Some lon0)
             | Some v \<Rightarrow>
                 if v \<noteq> 0
                 then (if v \<ge> COTRAVELER_DIST_THRESHOLD then (CoTraveler, None, None)
                       else if v \<le> STATIC_AP_DIST_THRESHOLD then (Static, Some lat0, Some lon0)
                       else (Unknown, Some lat0, Some lon0))
                 else (Unknown, Some lat0, Some lon0))
      in \<lparr>ap_mac = m, ap_ssid = s, classification = cls,
          first_seen = series_min (map time_dt records),
          last_seen = series_max (map time_dt records),
          lat = la, lon = lo, max_dist = md, coords = cs,
          source_files = join '', '' (sorted_set (map source_file records))\<rparr>)"

definition classify :: "detection list \<Rightarrow> ap_result list" where
  "classify df = map (\<lambda>((m, s), g). classify_group m s g)
                   (groupby (\<lambda>r. (mac r, ssid_filled r)) df)"

section \<open>\<open>co_traveler_analysis.py\<close>\<close>

subsection \<open>Step 4: preprocessing\<close>

text \<open>
  Rows with a zero coordinate are dropped.  When the user gave a date range, the rows
  outside it are dropped too, and with them the rows whose time did not parse, since
  every comparison with \<open>NaT\<close> is false; the script exits if nothing is left.  When
  the user declined the date range, rows whose time did not parse stay in the frame.
  The whitelist filter of Step 4a, which removes rows by MAC or SSID, is left out.
\<close>

definition step4 :: "(real \<times> real) option \<Rightarrow> detection list \<Rightarrow> py_error + detection list" where
  "step4 date_filter df =
     (let df1 = filter (\<lambda>r. latitude r \<noteq> 0 \<and> longitude r \<noteq> 0) df
      in case date_filter of
           None \<Rightarrow> Inr df1
         | Some (start_dt, end_dt) \<Rightarrow>
             let df2 = filter (\<lambda>r. case time_dt r of
                                       None \<Rightarrow> False
                                     | Some t \<Rightarrow> t \<ge> start_dt \<and> t \<le> end_dt) df1
             in if df2 = [] then Inl SystemExit else Inr df2)"

subsection \<open>Step 5: classification of one group\<close>

text \<open>
  The \<open>if len(coords) < 2 ... else ...\<close> block: the pair of \<open>classification\<close> and
  \<open>group_max\<close>.  The loop state is the pair of \<open>is_cotraveler\<close> and \<open>max_dist\<close>.
\<close>

definition ct_classify :: "(real \<times> real) list \<Rightarrow> label \<times> real" where
  "ct_classify cs =
     (if length cs < 2 then (Unknown, 0)
      else
        let (is_cotraveler, md) =
              for_pairs
                (\<lambda>(flag, acc) ci cj.
                   let d = haversine (fst ci) (snd ci) (fst cj) (snd cj)
                   in (if d \<ge> 1000 then True else flag, if d > acc then d else acc))
                cs (False, 0)
        in (if is_cotraveler then CoTraveler
            else if md \<le> 300 then Static
            else Unknown, md))"

record ct_result =
  ct_mac :: string
  ct_ssid :: string
  ct_classification :: label
  ct_first_seen :: "real option"
  ct_last_seen :: "real option"
  ct_source_files :: string
  ct_max_dist :: real

text \<open>
  The body of the loop over the groups; \<open>first_seen\<close> and \<open>last_seen\<close> come from the
  builtins \<open>min\<close> and \<open>max\<close> on the list of the group's timestamps.
\<close>

definition step5_group :: "string \<Rightarrow> string \<Rightarrow> detection list \<Rightarrow> py_error + ct_result" where
  "step5_group m s records =
     (let cs = map (\<lambda>r. (latitude r, longitude r)) records;
          times = map time_dt records;
          srcs = join '', '' (sorted_set (map source_file records));
          (cls, group_max) = ct_classify cs
      in case py_min times of
           Inl e \<Rightarrow> Inl e
         | Inr fs \<Rightarrow>
             (case py_max times of
                Inl e \<Rightarrow> Inl e
              | Inr ls \<Rightarrow>
                  Inr \<lparr>ct_mac = m, ct_ssid = s, ct_classification = cls,
                       ct_first_seen = fs, ct_last_seen = ls,
                       ct_source_files = srcs, ct_max_dist = group_max\<rparr>))"

subsection \<open>\<open>cluster_records\<close> and \<open>aggregate_cluster\<close>\<close>

text \<open>
  The frame \<open>records\<close>: its index labels in row order, and \<open>records.loc[idx]\<close>.
  Every label the clusterer looks up comes from \<open>records.index\<close>.
\<close>

record frame =
  index :: "nat list"
  loc :: "nat \<Rightarrow> detection"

text \<open>
  The inner \<open>while changed\<close> loop.  One pass scans the worklist against the current
  centre, moves the labels within the threshold to the cluster
  (\<open>indices.remove\<close> drops the first occurrence), and recomputes the centre; the loop
  ends after a pass that moved nothing.  The first argument bounds the number of
  passes: \<open>None\<close> means the bound was reached before the loop ended.
\<close>

fun rescan ::
  "nat \<Rightarrow> frame \<Rightarrow> real \<Rightarrow> nat list \<Rightarrow> real \<times> real \<Rightarrow> nat list \<Rightarrow> (nat list \<times> nat list) option"
where
  "rescan 0 records threshold cluster center indices = None"
| "rescan (Suc fuel) records threshold cluster center indices =
     (let remove_list =
            filter (\<lambda>idx. haversine (fst center) (snd center)
                             (latitude (loc records idx)) (longitude (loc records idx))
                           \<le> threshold) indices;
          cluster' = cluster @ remove_list;
          changed = (remove_list \<noteq> []);
          indices' = foldl (\<lambda>xs idx. remove1 idx xs) indices remove_list;
          center' = (if cluster' \<noteq> []
                     then (mean (map (\<lambda>i. latitude (loc records i)) cluster'),
                           mean (map (\<lambda>i. longitude (loc records i)) cluster'))
                     else center)
      in if changed then rescan fuel records threshold cluster' center' indices'
         else Some (cluster', indices'))"

text \<open>
  The outer \<open>while indices\<close> loop: pop the first label as the seed of a new cluster,
  run the inner loop, append the cluster.  The first argument bounds the number of
  iterations of this loop, and of each run of the inner loop started from it.
\<close>

fun cluster_loop ::
  "nat \<Rightarrow> frame \<Rightarrow> real \<Rightarrow> nat list list \<Rightarrow> nat list \<Rightarrow> nat list list option"
where
  "cluster_loop fuel records threshold clusters [] = Some clusters"
| "cluster_loop 0 records threshold clusters (current_idx # indices) = None"
| "cluster_loop (Suc fuel) records threshold clusters (current_idx # indices) =
     (case rescan (Suc fuel) records threshold [current_idx]
             (latitude (loc records current_idx), longitude (loc records current_idx))
             indices of
        None \<Rightarrow> None
      | Some (cluster, indices') \<Rightarrow>
          cluster_loop fuel records threshold (clusters @ [cluster]) indices')"

definition cluster_records :: "nat \<Rightarrow> frame \<Rightarrow> real \<Rightarrow> nat list list option" where
  "cluster_records fuel records threshold =
     cluster_loop fuel records threshold [] (index records)"

record aggregate =
  center :: "real \<times> real"
  agg_first_seen :: "real option"
  agg_last_seen :: "real option"
  agg_source_files :: string

definition aggregate_cluster :: "frame \<Rightarrow> nat list \<Rightarrow> aggregate" where
  "aggregate_cluster records cluster_indices =
     (let clust_data = map (loc records) cluster_indices
      in \<lparr>center = (mean (map latitude clust_data), mean (map longitude clust_data)),
          agg_first_seen = series_min (map time_dt clust_data),
          agg_last_seen = series_max (map time_dt clust_data),
          agg_source_files = join '', '' (sorted_set (map source_file clust_data))\<rparr>)"

text \<open>
  Step 8, for one co-traveler group: the centres of the aggregated markers, in the
  order of the clusters.
\<close>

definition cluster_centers :: "nat \<Rightarrow> frame \<Rightarrow> real \<Rightarrow> (real \<times> real) list option" where
  "cluster_centers fuel records threshold =
     map_option (map (\<lambda>clust. center (aggregate_cluster records clust)))
       (cluster_records fuel records threshold)"

section \<open>\<open>static_aggregate.py\<close>\<close>

text \<open>
  Step 4, the weighted average of a static group: the weight column
  (\<open>max(0, 130 + x) if pd.notna(x) else 1\<close>) and the best-guess location from the
  chosen coordinate columns \<open>lat_vals\<close>, \<open>lon_vals\<close>.
\<close>

definition sa_weight :: "real option \<Rightarrow> real" where
  "sa_weight x = (case x of Some v \<Rightarrow> max 0 (130 + v) | None \<Rightarrow> 1)"

definition sa_best_location :: "real list \<Rightarrow> real list \<Rightarrow> real option list \<Rightarrow> real \<times> real" where
  "sa_best_location lat_vals lon_vals rssis =
     (let weight = map sa_weight rssis;
          total_weight = sum_list weight
      in if total_weight > 0
         then (sum_list (map2 (*) lat_vals weight) / total_weight,
               sum_list (map2 (*) lon_vals weight) / total_weight)
         else (mean lat_vals, mean lon_vals))"

section \<open>Double-precision arithmetic\<close>

text \<open>
  The nearest integer, a tie going to the even neighbour.
\<close>

definition round_even :: "real \<Rightarrow> int" where
  "round_even y =
     (let f = \<lfloor>y\<rfloor>; r = y - of_int f
      in if r < 1 / 2 then f else if 1 / 2 < r then f + 1
         else if even f then f else f + 1)"

text \<open>
  The binary64 number nearest to a real, ties to even: 53 significant bits, so the
  spacing of the floats around \<open>x\<close> is \<open>2\<close> to the power
  \<open>\<lfloor>log 2 \<bar>x\<bar>\<rfloor> - 52\<close>.  The exponent range is left unbounded: overflow and
  underflow, which coordinates and weights do not reach, are not modelled.  A decimal
  read from a CSV file, and the result of each \<open>+\<close>, \<open>*\<close> and \<open>/\<close> on floats, is
  \<open>fl64\<close> of the exact value.
\<close>

definition fl64 :: "real \<Rightarrow> real" where
  "fl64 x =
     (if x = 0 then 0
      else let u = (2::real) powr of_int (\<lfloor>log 2 \<bar>x\<bar>\<rfloor> - 52)
           in of_int (round_even (x / u)) * u)"

text \<open>
  \<open>Series.sum()\<close> of a short column of floats: the cells are added from left to
  right, each addition rounded.  (From eight cells on numpy adds in blocks; the
  statements below are about two cells.)
\<close>

fun fl_sum :: "real list \<Rightarrow> real" where
  "fl_sum [] = 0"
| "fl_sum (p # ps) = foldl (\<lambda>acc q. fl64 (acc + q)) p ps"

text \<open>
  One axis of the weighted branch of both estimators,
  \<open>(vals * weights).sum() / total_weight\<close> with \<open>total_weight = weights.sum()\<close>, as
  the machine evaluates it: each product, each addition and the division rounded.
\<close>

definition weighted_axis_fl :: "real list \<Rightarrow> real list \<Rightarrow> real" where
  "weighted_axis_fl vals weights =
     fl64 (fl_sum (map2 (\<lambda>v w. fl64 (v * w)) vals weights) / fl_sum weights)"

section \<open>\<open>flagged_signals_analysis.py\<close>\<close>

text \<open>
  A row of the combined frame after the numeric and datetime conversions: the
  coordinates and the time may have failed to parse.
\<close>

record wigled_row =
  w_mac :: string
  w_ssid :: "string option"
  w_destmac :: "string option"
  w_type :: "string option"
  w_source_file :: "string option"
  w_time_dt :: "real option"
  w_latitude :: "real option"
  w_longitude :: "real option"

text \<open>
  A row that survived both \<open>dropna\<close> calls of \<open>main\<close>: its coordinates and its time
  are present, so the \<open>dropna\<close> inside \<open>compute_max_distance\<close> removes nothing.
\<close>

record clean_row =
  c_mac :: string
  c_ssid :: "string option"
  c_destmac :: "string option"
  c_type :: "string option"
  c_source_file :: "string option"
  c_time_dt :: real
  c_latitude :: real
  c_longitude :: real

definition to_clean :: "wigled_row \<Rightarrow> clean_row option" where
  "to_clean r =
     (case (w_latitude r, w_longitude r, w_time_dt r) of
        (Some la, Some lo, Some t) \<Rightarrow>
          Some \<lparr>c_mac = w_mac r, c_ssid = w_ssid r, c_destmac = w_destmac r,
                c_type = w_type r, c_source_file = w_source_file r,
                c_time_dt = t, c_latitude = la, c_longitude = lo\<rparr>
      | _ \<Rightarrow> None)"

definition drop_invalid :: "wigled_row list \<Rightarrow> clean_row list" where
  "drop_invalid df = List.map_filter to_clean df"

definition compute_max_distance :: "clean_row list \<Rightarrow> real" where
  "compute_max_distance df =
     (let cs = map (\<lambda>r. (c_latitude r, c_longitude r)) df;
          n = length cs
      in if n < 2 then 0
         else for_pairs
                (\<lambda>acc ci cj.
                   let d = haversine (fst ci) (snd ci) (fst cj) (snd cj)
                   in if d > acc then d else acc)
                cs 0)"

text \<open>The confidence computation, before the record rounds it.\<close>

definition confidence_score :: "nat \<Rightarrow> real \<Rightarrow> real \<Rightarrow> real" where
  "confidence_score cnt max_distance time_range =
     (let count_factor = min (real cnt / 20) 1;
          distance_factor = min (max ((max_distance - 300) / 9700) 0) 1;
          time_factor = min (time_range / 12) 1
      in (0.3 * count_factor + 0.4 * distance_factor + 0.3 * time_factor) * 100)"


record flagged =
  f_mac :: string
  f_ssid :: string
  f_destmac :: string
  f_type :: string
  f_detections :: nat
  f_max_distance_m :: real
  f_time_range_hours :: real
  f_first_seen :: real
  f_last_seen :: real
  f_confidence :: real
  f_source_files :: string

text \<open>
  The body of the loop over the groups: \<open>None\<close> where the loop continues without a
  record (an empty group, or a spread under 300 m).

  Three fields are stored through Python's \<open>round\<close>.  The program rounds the binary
  float it has computed, and where the exact value lies halfway between two decimals
  the float may lie on either side of it (a score of exactly 43.05 is held as
  43.050000000000004 and stored as 43.1).  The real-number model does not determine
  that choice, so the rounding is the parameter \<open>rnd\<close> of the model, and every
  statement below holds for every \<open>rnd\<close>.
\<close>

definition flag_group ::
  "(real \<Rightarrow> nat \<Rightarrow> real) \<Rightarrow> string \<Rightarrow> clean_row list \<Rightarrow> flagged option" where
  "flag_group rnd m grp =
     (let cnt = length grp
      in if cnt < 1 then None
         else
           let fs = Min (set (map c_time_dt grp));
               ls = Max (set (map c_time_dt grp));
               time_range = (ls - fs) / 3600;
               max_distance = compute_max_distance grp
           in if max_distance < 300 then None
              else
                Some \<lparr>f_mac = m,
                      f_ssid = join '', '' (sorted_set (dropna (map c_ssid grp))),
                      f_destmac = join '', '' (sorted_set (dropna (map c_destmac grp))),
                      f_type = join '', '' (sorted_set (dropna (map c_type grp))),
                      f_detections = cnt,
                      f_max_distance_m = rnd max_distance 1,
                      f_time_range_hours = rnd time_range 2,
                      f_first_seen = fs,
                      f_last_seen = ls,
                      f_confidence = rnd (confidence_score cnt max_distance time_range) 1,
                      f_source_files = join '', '' (sorted_set (dropna (map c_source_file grp)))\<rparr>)"

text \<open>
  \<open>main\<close>, from the two \<open>dropna\<close> calls to the list \<open>results\<close>; the final sort of
  the report by confidence is presentation and is left out.
\<close>

definition main :: "(real \<Rightarrow> nat \<Rightarrow> real) \<Rightarrow> wigled_row list \<Rightarrow> flagged list" where
  "main rnd df =
     List.map_filter (\<lambda>(m, grp). flag_group rnd m grp) (groupby c_mac (drop_invalid df))"

section \<open>The specification's reference functions\<close>

text \<open>
  Written from the words of the specification, to be compared with the code above.
\<close>

fun all_pairs :: "'a list \<Rightarrow> ('a \<times> 'a) list" where
  "all_pairs [] = []"
| "all_pairs (x # xs) = map (Pair x) xs @ all_pairs xs"

text \<open>
  The maximum over all distinct unordered pairs of the distance between their
  coordinates; 0 with fewer than two detections.
\<close>

definition pair_dists :: "(real \<times> real) list \<Rightarrow> real list" where
  "pair_dists cs = map (\<lambda>(a, b). haversine (fst a) (snd a) (fst b) (snd b)) (all_pairs cs)"

definition spec_max_spread :: "(real \<times> real) list \<Rightarrow> real" where
  "spec_max_spread cs = (if length cs < 2 then 0 else Max (set (pair_dists cs)))"

text \<open>
  Fewer than two detections: UNKNOWN.  Otherwise CO\_TRAVELER from 1000 m, else
  STATIC up to 300 m, else UNKNOWN.
\<close>

definition spec_classify :: "(real \<times> real) list \<Rightarrow> label" where
  "spec_classify cs =
     (if length cs < 2 then Unknown
      else if spec_max_spread cs \<ge> 1000 then CoTraveler
      else if spec_max_spread cs \<le> 300 then Static
      else Unknown)"

text \<open>
  The weight of a detection and the weighted centroid, per axis, with the unweighted
  mean where the total weight is 0.  A point is latitude, longitude and RSSI.
\<close>

definition spec_weight :: "real \<Rightarrow> real option \<Rightarrow> real" where
  "spec_weight fallback x = (case x of Some v \<Rightarrow> max 0 (130 + v) | None \<Rightarrow> fallback)"

definition spec_best_location :: "real \<Rightarrow> (real \<times> real \<times> real option) list \<Rightarrow> real \<times> real" where
  "spec_best_location fallback pts =
     (let total = (\<Sum>(la, lo, x) \<leftarrow> pts. spec_weight fallback x)
      in if total = 0
         then ((\<Sum>(la, lo, x) \<leftarrow> pts. la) / real (length pts),
               (\<Sum>(la, lo, x) \<leftarrow> pts. lo) / real (length pts))
         else ((\<Sum>(la, lo, x) \<leftarrow> pts. spec_weight fallback x * la) / total,
               (\<Sum>(la, lo, x) \<leftarrow> pts. spec_weight fallback x * lo) / total))"



section \<open>Example inputs\<close>

text \<open>A detection of one fixed identity at the given latitude and longitude.\<close>

definition det :: "real \<Rightarrow> real \<Rightarrow> detection" where
  "det la lo =
     \<lparr>mac = ''aa:bb:cc:dd:ee:ff'', ssid_filled = ''HomeRouter'', time_dt = Some 0,
      rssi = Some (- 40), latitude = la, longitude = lo,
      source_file = ''wigle_01-01-2025.csv''\<rparr>"

text \<open>The same, with the given timestamp.\<close>

definition det_at :: "real option \<Rightarrow> real \<Rightarrow> real \<Rightarrow> detection" where
  "det_at t la lo =
     \<lparr>mac = ''aa:bb:cc:dd:ee:ff'', ssid_filled = ''HomeRouter'', time_dt = t,
      rssi = Some (- 40), latitude = la, longitude = lo,
      source_file = ''wigle_01-01-2025.csv''\<rparr>"

text \<open>
  Three detections of one identity at one place: the first with a time that did not
  parse, the others one and two hours into the day.
\<close>

definition leading_unparsed_rows :: "detection list" where
  "leading_unparsed_rows =
     [det_at None 51.5 (- 0.12), det_at (Some 3600) 51.5 (- 0.12),
      det_at (Some 7200) 51.5 (- 0.12)]"

text \<open>Rows of the flagged-signals frame, before and after the two \<open>dropna\<close> calls.\<close>

definition wrow ::
  "string \<Rightarrow> string \<Rightarrow> real option \<Rightarrow> real option \<Rightarrow> real option \<Rightarrow> wigled_row" where
  "wrow m ss t la lo =
     \<lparr>w_mac = m, w_ssid = Some ss, w_destmac = None, w_type = Some ''WIFI'',
      w_source_file = Some ''Wigled_Merged_1.csv'', w_time_dt = t,
      w_latitude = la, w_longitude = lo\<rparr>"

definition crow :: "string \<Rightarrow> string \<Rightarrow> real \<Rightarrow> real \<Rightarrow> real \<Rightarrow> clean_row" where
  "crow m ss t la lo =
     \<lparr>c_mac = m, c_ssid = Some ss, c_destmac = None, c_type = Some ''WIFI'',
      c_source_file = Some ''Wigled_Merged_1.csv'', c_time_dt = t,
      c_latitude = la, c_longitude = lo\<rparr>"

text \<open>
  The frame handed to the clusterer when it is run again on a list of centres: one
  row per centre, labelled by its position.
\<close>

definition centers_frame :: "(real \<times> real) list \<Rightarrow> frame" where
  "centers_frame cs =
     \<lparr>index = [0..<length cs], loc = (\<lambda>i. det (fst (cs ! i)) (snd (cs ! i)))\<rparr>"

text \<open>
  Every centre is more than the threshold away from every later one.
\<close>

fun pairwise_apart :: "real \<Rightarrow> (real \<times> real) list \<Rightarrow> bool" where
  "pairwise_apart threshold [] = True"
| "pairwise_apart threshold (c # cs) =
     (list_all (\<lambda>d. threshold < haversine (fst c) (snd c) (fst d) (snd d)) cs
      \<and> pairwise_apart threshold cs)"

text \<open>
  One detection at 45.0001 N, 60 E, then three on the antimeridian at 45 N, two
  recorded with longitude 180 and one with longitude -180.
\<close>

definition antimeridian_frame :: frame where
  "antimeridian_frame =
     \<lparr>index = [0, 1, 2, 3],
      loc = (\<lambda>i. if i = 0 then det 45.0001 60
                 else if i = 3 then det 45 (- 180)
                 else det 45 180)\<rparr>"

text \<open>
  Two detections of one MAC under two SSIDs, 0.1 degree of latitude and two hours
  apart; and two detections of one identity, the second with a time that did not
  parse.
\<close>

definition two_ssid_rows :: "wigled_row list" where
  "two_ssid_rows =
     [wrow ''aa:bb:cc:dd:ee:ff'' ''HomeRouter'' (Some 0) (Some 51.5) (Some (- 0.12)),
      wrow ''aa:bb:cc:dd:ee:ff'' ''Guest'' (Some 7200) (Some 51.6) (Some (- 0.12))]"

definition unparsed_time_rows :: "wigled_row list" where
  "unparsed_time_rows =
     [wrow ''aa:bb:cc:dd:ee:ff'' ''HomeRouter'' (Some 0) (Some 51.5) (Some (- 0.12)),
      wrow ''aa:bb:cc:dd:ee:ff'' ''HomeRouter'' None (Some 51.6) (Some (- 0.12))]"

section \<open>Properties of the distance primitive\<close>

lemma sin_half_sq: "(sin (x / 2))\<^sup>2 = (1 - cos x) / (2::real)"
  using cos_double_sin [of "x / 2"] by simp

lemma hav_a_nonneg:
  fixes p1 p2 s :: real
  assumes "0 \<le> s" "s \<le> 1"
  shows "0 \<le> (sin ((p2 - p1) / 2))\<^sup>2 + cos p1 * cos p2 * s"
proof (cases "0 \<le> cos p1 * cos p2")
  case True
  then have "0 \<le> cos p1 * cos p2 * s" using assms by simp
  then show ?thesis by (simp add: add_nonneg_nonneg)
next
  case False
  then have "0 \<le> cos p1 * cos p2 * (s - 1)"
    using assms by (intro mult_nonpos_nonpos) simp_all
  then have "cos p1 * cos p2 \<le> cos p1 * cos p2 * s"
    by (simp add: algebra_simps)
  moreover have "(sin ((p2 - p1) / 2))\<^sup>2 + cos p1 * cos p2 = (1 + cos (p1 + p2)) / 2"
    by (simp add: sin_half_sq cos_diff cos_add field_simps)
  moreover have "0 \<le> (1 + cos (p1 + p2)) / 2"
  proof -
    have "- 1 \<le> cos (p1 + p2)" by (rule cos_ge_minus_one)
    then have "0 \<le> 1 + cos (p1 + p2)" by linarith
    then show ?thesis by simp
  qed
  ultimately show ?thesis by linarith
qed

lemma atan2_nonneg: "0 \<le> y \<Longrightarrow> 0 \<le> atan2 y x"
proof (cases "x < 0")
  case True
  assume "0 \<le> y"
  with True arctan_lbound [of "y / x"] pi_gt_zero show ?thesis
    unfolding atan2_def by (simp; linarith)
next
  case False
  assume "0 \<le> y"
  with False show ?thesis by (simp add: atan2_def)
qed

lemma radians_diff: "radians (x - y) = radians x - radians y"
  by (simp add: radians_def field_simps)

lemma haversine_nonneg: "0 \<le> haversine lat1 lon1 lat2 lon2"
proof -
  have "0 \<le> (sin (radians (lon2 - lon1) / 2))\<^sup>2" "(sin (radians (lon2 - lon1) / 2))\<^sup>2 \<le> 1"
    by (simp_all add: abs_square_le_1 )
  then have "0 \<le> (sin ((radians lat2 - radians lat1) / 2))\<^sup>2
      + cos (radians lat1) * cos (radians lat2) * (sin (radians (lon2 - lon1) / 2))\<^sup>2"
    by (rule hav_a_nonneg)
  then show ?thesis
    by (simp add: haversine_def Let_def radians_diff atan2_nonneg)
qed

lemma haversine_same: "haversine a b a b = 0"
  by (simp add: haversine_def atan2_def radians_def)

section \<open>The pair loop as a fold over the list of pairs\<close>

lemma foldl_map_Suc:
  "foldl f s (map Suc is) = foldl (\<lambda>s i. f s (Suc i)) s is"
  by (induction "is" arbitrary: s) simp_all

lemma foldl_nth_upt:
  "foldl (\<lambda>s j. g s (xs ! j)) s [0..<length xs] = foldl g s xs"
proof -
  have "foldl g s (map ((!) xs) [0..<length xs]) = foldl (\<lambda>s j. g s (xs ! j)) s [0..<length xs]"
    by (simp add: foldl_map)
  then show ?thesis by (simp add: map_nth)
qed

lemma for_pairs_Nil: "for_pairs body [] s = s"
  by (simp add: for_pairs_def)

lemma for_pairs_Cons:
  "for_pairs body (x # xs) s = for_pairs body xs (foldl (\<lambda>s y. body s x y) s xs)"
proof -
  let ?n = "length xs"
  have up: "[0..<Suc ?n] = 0 # map Suc [0..<?n]"
    by (simp add: upt_conv_Cons map_Suc_upt del: upt_Suc)
  have inner0: "foldl (\<lambda>s j. body s ((x # xs) ! 0) ((x # xs) ! j)) s [Suc 0..<Suc ?n]
      = foldl (\<lambda>s y. body s x y) s xs"
  proof -
    have "[Suc 0..<Suc ?n] = map Suc [0..<?n]" by (simp add: map_Suc_upt del: upt_Suc)
    then show ?thesis
      using foldl_nth_upt [of "\<lambda>s y. body s x y" xs s]
      by (simp add: foldl_map_Suc del: upt_Suc)
  qed
  have inner: "\<And>i s. foldl (\<lambda>s j. body s ((x # xs) ! Suc i) ((x # xs) ! j)) s [Suc (Suc i)..<Suc ?n]
      = foldl (\<lambda>s j. body s (xs ! i) (xs ! j)) s [Suc i..<?n]"
  proof -
    fix i s
    have "[Suc (Suc i)..<Suc ?n] = map Suc [Suc i..<?n]" by (simp add: map_Suc_upt del: upt_Suc)
    then show "foldl (\<lambda>s j. body s ((x # xs) ! Suc i) ((x # xs) ! j)) s [Suc (Suc i)..<Suc ?n]
      = foldl (\<lambda>s j. body s (xs ! i) (xs ! j)) s [Suc i..<?n]"
      by (simp add: foldl_map_Suc del: upt_Suc)
  qed
  show ?thesis
    unfolding for_pairs_def
    by (simp only: length_Cons up foldl_Cons inner0 foldl_map_Suc inner)
qed

lemma for_pairs_all_pairs:
  "for_pairs body xs s = foldl (\<lambda>s (a, b). body s a b) s (all_pairs xs)"
proof (induction xs arbitrary: s)
  case Nil
  show ?case by (simp add: for_pairs_Nil)
next
  case (Cons x xs)
  have "foldl (\<lambda>s (a, b). body s a b) s (map (Pair x) xs) = foldl (\<lambda>s y. body s x y) s xs"
    by (simp add: foldl_map)
  then show ?case by (simp add: for_pairs_Cons Cons.IH)
qed

section \<open>Running maxima\<close>

lemma foldl_pair_dists:
  "foldl (\<lambda>s (a, b). g s (haversine (fst a) (snd a) (fst b) (snd b))) s (all_pairs cs)
     = foldl g s (pair_dists cs)"
  by (simp add: pair_dists_def foldl_map case_prod_unfold)

lemma all_pairs_empty_iff: "all_pairs xs = [] \<longleftrightarrow> length xs < 2"
proof (induction xs)
  case Nil
  show ?case by simp
next
  case (Cons x xs)
  show ?case by (cases xs) (simp_all add: Cons.IH)
qed

lemma pair_dists_empty_iff: "pair_dists cs = [] \<longleftrightarrow> length cs < 2"
  by (simp add: pair_dists_def all_pairs_empty_iff)

lemma Max_insert_if:
  "Max (insert (if m < d then d else m) (set ds)) = Max (insert (m::real) (insert d (set ds)))"
proof (cases "m < d")
  case True
  have A: "Max (insert m (insert d (set ds))) = max m (Max (insert d (set ds)))"
    by (rule Max_insert) simp_all
  have "d \<le> Max (insert d (set ds))"
    by (rule Max_ge) simp_all
  with True have "max m (Max (insert d (set ds))) = Max (insert d (set ds))"
    by (intro max_absorb2) linarith
  with A have "Max (insert d (set ds)) = Max (insert m (insert d (set ds)))"
    by (simp only:)
  with True show ?thesis by (simp only: if_True)
next
  case False
  have A: "Max (insert d (insert m (set ds))) = max d (Max (insert m (set ds)))"
    by (rule Max_insert) simp_all
  have "m \<le> Max (insert m (set ds))"
    by (rule Max_ge) simp_all
  with False have "max d (Max (insert m (set ds))) = Max (insert m (set ds))"
    by (intro max_absorb2) linarith
  with A have "Max (insert m (set ds)) = Max (insert d (insert m (set ds)))"
    by (simp only:)
  then have "Max (insert m (set ds)) = Max (insert m (insert d (set ds)))"
    by (simp only: insert_commute)
  with False show ?thesis by (simp only: if_False)
qed

lemma running_max:
  "foldl (\<lambda>acc d. if d > acc then d else acc) (m::real) ds = Max (insert m (set ds))"
proof (induction ds arbitrary: m)
  case Nil
  show ?case by simp
next
  case (Cons d ds)
  have "foldl (\<lambda>acc d. if d > acc then d else acc) m (d # ds)
      = foldl (\<lambda>acc d. if d > acc then d else acc) (if m < d then d else m) ds"
    by simp
  also have "\<dots> = Max (insert (if m < d then d else m) (set ds))"
    by (rule Cons.IH)
  also have "\<dots> = Max (insert m (set (d # ds)))"
    unfolding list.set(2) by (rule Max_insert_if)
  finally show ?case .
qed

lemma running_max_option:
  "foldl (\<lambda>acc d. case acc of None \<Rightarrow> Some d | Some v \<Rightarrow> if d > v then Some d else acc)
     (Some (m::real)) ds = Some (Max (insert m (set ds)))"
proof (induction ds arbitrary: m)
  case Nil
  show ?case by simp
next
  case (Cons d ds)
  have "foldl (\<lambda>acc d. case acc of None \<Rightarrow> Some d | Some v \<Rightarrow> if d > v then Some d else acc)
          (Some m) (d # ds)
      = foldl (\<lambda>acc d. case acc of None \<Rightarrow> Some d | Some v \<Rightarrow> if d > v then Some d else acc)
          (Some (if m < d then d else m)) ds"
    by simp
  also have "\<dots> = Some (Max (insert (if m < d then d else m) (set ds)))"
    by (rule Cons.IH)
  also have "\<dots> = Some (Max (insert m (set (d # ds))))"
    unfolding list.set(2) by (simp only: Max_insert_if)
  finally show ?case .
qed

lemma running_max_None:
  "foldl (\<lambda>acc d. case acc of None \<Rightarrow> Some d | Some v \<Rightarrow> if d > v then Some d else acc)
     None ds = (if ds = [] then None else Some (Max (set (ds::real list))))"
proof (cases ds)
  case Nil
  then show ?thesis by simp
next
  case (Cons d ds')
  then show ?thesis using running_max_option [of d ds'] by simp
qed

lemma running_flag:
  "foldl (\<lambda>(flag, acc) d. (if d \<ge> (1000::real) then True else flag, if d > acc then d else acc))
     (flag0, m) ds
   = (flag0 \<or> (\<exists>d \<in> set ds. d \<ge> 1000), Max (insert m (set ds)))"
proof (induction ds arbitrary: flag0 m)
  case Nil
  show ?case by simp
next
  case (Cons d ds)
  have "foldl (\<lambda>(flag, acc) d. (if d \<ge> (1000::real) then True else flag, if d > acc then d else acc))
          (flag0, m) (d # ds)
      = foldl (\<lambda>(flag, acc) d. (if d \<ge> (1000::real) then True else flag, if d > acc then d else acc))
          (if d \<ge> 1000 then True else flag0, if m < d then d else m) ds"
    by simp
  also have "\<dots> = ((if d \<ge> 1000 then True else flag0) \<or> (\<exists>d \<in> set ds. d \<ge> 1000),
                     Max (insert (if m < d then d else m) (set ds)))"
    by (rule Cons.IH)
  also have "\<dots> = (flag0 \<or> (\<exists>d \<in> set (d # ds). d \<ge> 1000), Max (insert m (set (d # ds))))"
    unfolding list.set(2) by (simp only: Max_insert_if) auto
  finally show ?case .
qed

lemma pair_dists_nonneg: "d \<in> set (pair_dists cs) \<Longrightarrow> 0 \<le> d"
  by (auto simp: pair_dists_def intro: haversine_nonneg)

lemma Max_insert_0:
  assumes "ds \<noteq> []" "\<And>d. d \<in> set ds \<Longrightarrow> 0 \<le> (d::real)"
  shows "Max (insert 0 (set ds)) = Max (set ds)"
proof -
  have "0 \<le> Max (set ds)"
    using assms by (metis List.finite_set Max_ge_iff empty_iff empty_set hd_in_set)
  moreover have "Max (insert 0 (set ds)) = max 0 (Max (set ds))"
    using assms(1) by simp
  ultimately show ?thesis by (simp add: max_def)
qed

lemma ct_classify_spec: "ct_classify cs = (spec_classify cs, spec_max_spread cs)"
proof (cases "length cs < 2")
  case True
  then show ?thesis by (simp add: ct_classify_def spec_classify_def spec_max_spread_def)
next
  case False
  then have ne: "pair_dists cs \<noteq> []" by (simp add: pair_dists_empty_iff)
  have loop: "for_pairs
                (\<lambda>(flag, acc) ci cj.
                   let d = haversine (fst ci) (snd ci) (fst cj) (snd cj)
                   in (if d \<ge> 1000 then True else flag, if d > acc then d else acc))
                cs (False, 0)
     = ((\<exists>d \<in> set (pair_dists cs). d \<ge> 1000), Max (set (pair_dists cs)))"
  proof -
    have "for_pairs
                (\<lambda>(flag, acc) ci cj.
                   let d = haversine (fst ci) (snd ci) (fst cj) (snd cj)
                   in (if d \<ge> 1000 then True else flag, if d > acc then d else acc))
                cs (False, 0)
      = foldl (\<lambda>s (a, b). (\<lambda>(flag, acc) d. (if d \<ge> (1000::real) then True else flag, if d > acc then d else acc)) s
                 (haversine (fst a) (snd a) (fst b) (snd b))) (False, 0) (all_pairs cs)"
      unfolding for_pairs_all_pairs by (simp add: Let_def case_prod_unfold)
    also have "\<dots> = foldl (\<lambda>(flag, acc) d. (if d \<ge> (1000::real) then True else flag, if d > acc then d else acc))
        (False, 0) (pair_dists cs)"
      by (rule foldl_pair_dists)
    also have "\<dots> = ((\<exists>d \<in> set (pair_dists cs). d \<ge> 1000), Max (insert 0 (set (pair_dists cs))))"
      by (simp add: running_flag)
    finally show ?thesis using Max_insert_0 [OF ne pair_dists_nonneg] by simp
  qed
  have flag: "(\<exists>d \<in> set (pair_dists cs). d \<ge> 1000) \<longleftrightarrow> 1000 \<le> Max (set (pair_dists cs))"
    using ne by (simp add: Max_ge_iff)
  show ?thesis
    using False by (simp add: ct_classify_def loop flag spec_classify_def spec_max_spread_def)
qed

section \<open>The two classifiers against the reference\<close>

lemma haversine_poles: "haversine 90 lon1 (- 90) lon2 = 6371000 * pi"
  by (simp add: haversine_def atan2_def radians_def Let_def)

lemma ap_loop:
  "for_pairs
     (\<lambda>acc ci cj.
        let dist = haversine (fst ci) (snd ci) (fst cj) (snd cj)
        in case acc of None \<Rightarrow> Some dist
           | Some v \<Rightarrow> if dist > v then Some dist else acc)
     cs None
   = (if length cs < 2 then None else Some (Max (set (pair_dists cs))))"
proof -
  have "for_pairs
     (\<lambda>acc ci cj.
        let dist = haversine (fst ci) (snd ci) (fst cj) (snd cj)
        in case acc of None \<Rightarrow> Some dist
           | Some v \<Rightarrow> if dist > v then Some dist else acc)
     cs None
    = foldl (\<lambda>s (a, b). (\<lambda>acc d. case acc of None \<Rightarrow> Some d
                                   | Some v \<Rightarrow> if d > v then Some d else acc) s
               (haversine (fst a) (snd a) (fst b) (snd b))) None (all_pairs cs)"
    unfolding for_pairs_all_pairs by (simp add: Let_def)
  also have "\<dots> = foldl (\<lambda>acc d. case acc of None \<Rightarrow> Some d
                                   | Some v \<Rightarrow> if d > v then Some d else acc) None (pair_dists cs)"
    by (rule foldl_pair_dists)
  also have "\<dots> = (if pair_dists cs = [] then None else Some (Max (set (pair_dists cs))))"
    by (rule running_max_None)
  finally show ?thesis by (simp add: pair_dists_empty_iff)
qed

lemma classify_group_coords:
  "coords (classify_group m s g) = map (\<lambda>r. (latitude r, longitude r)) g"
  by (simp add: classify_group_def Let_def case_prod_unfold)


lemma classify_group_classification:
  "classification (classify_group m s g)
     = (if length g < 2 \<or> spec_max_spread (map (\<lambda>r. (latitude r, longitude r)) g) = 0
        then Unknown
        else spec_classify (map (\<lambda>r. (latitude r, longitude r)) g))"
  by (simp add: classify_group_def Let_def case_prod_unfold ap_loop [unfolded Let_def] spec_max_spread_def
      spec_classify_def COTRAVELER_DIST_THRESHOLD_def STATIC_AP_DIST_THRESHOLD_def)

lemma classify_group_lat_lon:
  "(lat (classify_group m s g), lon (classify_group m s g))
     = (if classification (classify_group m s g) = CoTraveler then (None, None)
        else (Some (fst (compute_static_ap_coords g)), Some (snd (compute_static_ap_coords g))))"
  by (simp add: classify_group_def Let_def case_prod_unfold split: option.splits)

lemma spec_max_spread_pair:
  "spec_max_spread [(a, b), (c, d)] = haversine a b c d"
  by (simp add: spec_max_spread_def pair_dists_def)






text \<open>
  Claim C2.  The flag formulation of \<open>co_traveler_analysis.py\<close> and the running
  maximum of \<open>AccessPointClassifier.classify\<close> do not give the same label to
  every group: for two detections at the same place the first says STATIC and the
  second, whose test \<open>if max_dist:\<close> is false at \<open>0.0\<close>, says UNKNOWN.
\<close>

theorem labels_differ_at_zero_spread:
  "fst (ct_classify [(40.7128, - 74.006), (40.7128, - 74.006)]) = Static
   \<and> classification (classify_group ''aa:bb:cc:dd:ee:ff'' ''HomeRouter''
        [det 40.7128 (- 74.006), det 40.7128 (- 74.006)]) = Unknown"
  by (simp add: ct_classify_spec classify_group_classification det_def
      spec_max_spread_pair haversine_same spec_classify_def)

text \<open>Away from a spread of exactly 0 the two formulations agree.\<close>

lemma labels_agree_off_zero:
  "length g < 2 \<or> spec_max_spread (map (\<lambda>r. (latitude r, longitude r)) g) \<noteq> 0 \<Longrightarrow>
   classification (classify_group m s g) = fst (ct_classify (map (\<lambda>r. (latitude r, longitude r)) g))"
  by (auto simp add: ct_classify_spec classify_group_classification spec_classify_def)

section \<open>The location estimator\<close>

lemma sum_list_map2_same:
  "sum_list (map2 (*) (map f xs) (map w xs)) = (\<Sum>x\<leftarrow>xs. w x * (f x :: real))"
  by (induction xs) (simp_all add: mult.commute)

lemma spec_weight_nonneg: "0 \<le> fallback \<Longrightarrow> 0 \<le> spec_weight fallback x"
  by (cases x) (simp_all add: spec_weight_def)

lemma sa_weight_spec: "sa_weight x = spec_weight 1 x"
  by (simp add: sa_weight_def spec_weight_def)

lemma ap_weight_spec:
  "max 0 (130 + (case x of None \<Rightarrow> - 130 | Some v \<Rightarrow> v)) = spec_weight 0 x"
  by (cases x) (simp_all add: spec_weight_def)

lemma compute_static_ap_coords_spec:
  "compute_static_ap_coords g
     = spec_best_location 0 (map (\<lambda>r. (latitude r, longitude r, rssi r)) g)"
proof -
  have w: "map (\<lambda>v. max 0 (130 + v)) (map (\<lambda>r. case rssi r of None \<Rightarrow> - 130 | Some v \<Rightarrow> v) g)
      = map (\<lambda>r. spec_weight 0 (rssi r)) g"
    by (simp add: ap_weight_spec)
  show ?thesis
    unfolding compute_static_ap_coords_def spec_best_location_def Let_def w sum_list_map2_same
    by (simp add: mean_def o_def case_prod_unfold)
qed

lemma sa_best_location_spec:
  "sa_best_location (map fst pts) (map (\<lambda>p. fst (snd p)) pts) (map (\<lambda>p. snd (snd p)) pts)
     = spec_best_location 1 pts"
proof -
  have w: "map sa_weight (map (\<lambda>p. snd (snd p)) pts) = map (\<lambda>p. spec_weight 1 (snd (snd p))) pts"
    by (simp add: sa_weight_spec)
  have "0 \<le> (\<Sum>p\<leftarrow>pts. spec_weight 1 (snd (snd p)))"
    by (rule sum_list_nonneg) (auto intro: spec_weight_nonneg)
  then have pos: "0 < (\<Sum>p\<leftarrow>pts. spec_weight 1 (snd (snd p)))
      \<longleftrightarrow> (\<Sum>p\<leftarrow>pts. spec_weight 1 (snd (snd p))) \<noteq> 0"
    by linarith
  show ?thesis
    unfolding sa_best_location_def spec_best_location_def Let_def w sum_list_map2_same
    by (simp add: mean_def o_def case_prod_unfold pos)
qed

subsection \<open>The weighted average in double precision\<close>

lemma round_even_error: "\<bar>of_int (round_even y) - y\<bar> \<le> 1 / 2"
proof -
  have "of_int \<lfloor>y\<rfloor> \<le> y" "y < of_int \<lfloor>y\<rfloor> + 1" by linarith+
  then show ?thesis
    by (auto simp: round_even_def Let_def)
qed

lemma powr_neg_nat: "(2::real) powr (- real n) = 1 / 2 ^ n"
proof -
  have "(2::real) powr (- real n) = inverse (2 powr real n)" by (rule powr_minus)
  also have "(2::real) powr real n = 2 ^ n" by (rule powr_realpow) simp
  finally show ?thesis by (simp add: divide_inverse)
qed

lemma unit_scale:
  fixes x u :: real
  assumes "0 < u"
  shows "\<bar>of_int n * u - x\<bar> = \<bar>of_int n - x / u\<bar> * u"
proof -
  have "of_int n * u - x = (of_int n - x / u) * u"
    using assms by (simp add: algebra_simps)
  then show ?thesis using assms by (simp add: abs_mult)
qed

lemma fl64_error: "\<bar>fl64 x - x\<bar> \<le> \<bar>x\<bar> / 2 ^ 53"
proof (cases "x = 0")
  case True
  then show ?thesis by (simp add: fl64_def)
next
  case False
  define e where "e = \<lfloor>log 2 \<bar>x\<bar>\<rfloor>"
  define u where "u = (2::real) powr of_int (e - 52)"
  define n where "n = round_even (x / u)"
  have upos: "0 < u" by (simp add: u_def)
  have fx: "fl64 x = of_int n * u"
    using False by (simp add: fl64_def Let_def u_def e_def n_def)
  have "\<bar>of_int n - x / u\<bar> \<le> 1 / 2" unfolding n_def by (rule round_even_error)
  then have "\<bar>of_int n - x / u\<bar> * u \<le> 1 / 2 * u"
    using upos by (intro mult_right_mono) simp_all
  then have err: "\<bar>fl64 x - x\<bar> \<le> u / 2"
    unfolding fx unit_scale [OF upos] by simp
  have "0 < \<bar>x\<bar>" using False by simp
  then have le: "(2::real) powr of_int e \<le> \<bar>x\<bar>"
    using floor_log_eq_powr_iff [of "\<bar>x\<bar>" 2 e] by (simp add: e_def)
  have "u = (2::real) powr (of_int e + - real 52)" by (simp add: u_def)
  also have "\<dots> = 2 powr of_int e * 2 powr (- real 52)" by (rule powr_add)
  also have "\<dots> = 2 powr of_int e * (1 / 2 ^ 52)" by (simp only: powr_neg_nat)
  finally have ue: "u = 2 powr of_int e / 2 ^ 52" by simp
  have "u / 2 = 2 powr of_int e / 2 ^ 53" unfolding ue by simp
  also have "\<dots> \<le> \<bar>x\<bar> / 2 ^ 53" using le by (intro divide_right_mono) simp_all
  finally show ?thesis using err by linarith
qed

lemma fl64_eval:
  assumes "2 ^ k \<le> \<bar>x\<bar>" "\<bar>x\<bar> < 2 ^ Suc k" "k \<le> 52"
  shows "fl64 x = of_int (round_even (x * 2 ^ (52 - k))) / 2 ^ (52 - k)"
proof -
  have "(0::real) < 2 ^ k" by simp
  with assms(1) have pos: "0 < \<bar>x\<bar>" by linarith
  then have nz: "x \<noteq> 0" by simp
  have p1: "(2::real) powr of_int (int k) = 2 ^ k"
    using powr_realpow [of 2 k] by simp
  have p2: "(2::real) powr of_int (int k + 1) = 2 ^ Suc k"
    using powr_realpow [of 2 "Suc k"] by (simp add: add.commute)
  have e: "\<lfloor>log 2 \<bar>x\<bar>\<rfloor> = int k"
    using floor_log_eq_powr_iff [of "\<bar>x\<bar>" 2 "int k"] pos assms(1,2)
    by (simp only: p1 p2)
  have "real_of_int (int k - 52) = - real (52 - k)"
    using assms(3) by (simp add: of_nat_diff)
  then have u: "(2::real) powr of_int (int k - 52) = 1 / 2 ^ (52 - k)"
    by (simp only: powr_neg_nat)
  have "fl64 x = of_int (round_even (x / (2 powr of_int (int k - 52)))) * 2 powr of_int (int k - 52)"
    using nz by (simp only: fl64_def Let_def e if_False)
  then show ?thesis by (simp only: u) simp
qed

lemma read_lon: "fl64 (- 122.4194) = - 8614499440983120 / 2 ^ 46"
  by (subst fl64_eval [of 6]) (simp_all add: round_even_def Let_def)

lemma fl64_hundred: "fl64 100 = 100"
  by (subst fl64_eval [of 6]) (simp_all add: round_even_def Let_def)

lemma lon_times_hundred:
  "fl64 (- 8614499440983120 / 2 ^ 46 * 100) = - 6730077688268062 / 2 ^ 39"
  by (subst fl64_eval [of 13]) (simp_all add: round_even_def Let_def)

lemma lon_product_kept:
  "fl64 (- 6730077688268062 / 2 ^ 39) = - 6730077688268062 / 2 ^ 39"
  by (subst fl64_eval [of 13]) (simp_all add: round_even_def Let_def)

lemma lon_divided:
  "fl64 (- 6730077688268062 / 2 ^ 39 / 100) = - 8614499440983119 / 2 ^ 46"
  by (subst fl64_eval [of 6]) (simp_all add: round_even_def Let_def)

lemma weighted_axis_fl_two:
  "weighted_axis_fl [x, y] [100, 0] = fl64 (fl64 (fl64 (x * 100)) / 100)"
  by (simp add: weighted_axis_fl_def fl64_hundred) (simp add: fl64_def)

lemma fl64_abs_le: "\<bar>fl64 x\<bar> \<le> 2 * \<bar>x\<bar>"
proof -
  have "\<bar>fl64 x - x\<bar> \<le> \<bar>x\<bar> / 2 ^ 53" by (rule fl64_error)
  moreover have "\<bar>x\<bar> / 2 ^ 53 \<le> \<bar>x\<bar> / 1"
    by (intro divide_left_mono) simp_all
  ultimately have "\<bar>fl64 x - x\<bar> \<le> \<bar>x\<bar>" by (simp only: div_by_1)
  then show ?thesis by linarith
qed

lemma weighted_axis_fl_close:
  "\<bar>weighted_axis_fl [x, y] [100, 0] - x\<bar> \<le> \<bar>x\<bar> / 2 ^ 50"
proof -
  define d :: real where "d = 1 / 2 ^ 53"
  define p where "p = fl64 (x * 100)"
  define s where "s = fl64 p"
  define r where "r = fl64 (s / 100)"
  have er: "\<And>z. \<bar>fl64 z - z\<bar> \<le> \<bar>z\<bar> * d"
    using fl64_error by (simp add: d_def)
  have d0: "0 \<le> d" by (simp add: d_def)
  have e1: "\<bar>p - x * 100\<bar> \<le> 100 * \<bar>x\<bar> * d"
    using er [of "x * 100"] by (simp add: p_def abs_mult)
  have b1: "\<bar>p\<bar> \<le> 200 * \<bar>x\<bar>"
    using fl64_abs_le [of "x * 100"] by (simp add: p_def abs_mult)
  have e2: "\<bar>s - p\<bar> \<le> \<bar>p\<bar> * d" unfolding s_def by (rule er)
  have "\<bar>p\<bar> * d \<le> 200 * \<bar>x\<bar> * d" using b1 d0 by (rule mult_right_mono)
  with e2 have e2': "\<bar>s - p\<bar> \<le> 200 * \<bar>x\<bar> * d" by linarith
  have b2: "\<bar>s\<bar> \<le> 400 * \<bar>x\<bar>"
    using fl64_abs_le [of p] b1 by (simp add: s_def)
  have e3: "\<bar>r - s / 100\<bar> \<le> \<bar>s / 100\<bar> * d" unfolding r_def by (rule er)
  have "\<bar>s / 100\<bar> \<le> 4 * \<bar>x\<bar>" using b2 by simp
  then have "\<bar>s / 100\<bar> * d \<le> 4 * \<bar>x\<bar> * d" using d0 by (rule mult_right_mono)
  with e3 have e3': "\<bar>r - s / 100\<bar> \<le> 4 * \<bar>x\<bar> * d" by linarith
  have xd: "0 \<le> \<bar>x\<bar> * d" using d0 by simp
  have "\<bar>r - x\<bar> \<le> 8 * (\<bar>x\<bar> * d)"
    using e1 e2' e3' xd by (simp only: abs_le_iff) linarith
  also have "8 * (\<bar>x\<bar> * d) = \<bar>x\<bar> / 2 ^ 50" by (simp add: d_def)
  finally show ?thesis
    by (simp only: weighted_axis_fl_two r_def s_def p_def)
qed

text \<open>
  Claim C6, as amended.  Both estimators compute the weighted centroid of the
  specification, per axis the sum of weight times coordinate over the sum of the
  weights, with weight \<open>max 0 (130 + rssi)\<close> where the RSSI is present and the
  fallback weight otherwise (0 in \<open>_compute_static_ap_coords\<close>, 1 in
  \<open>static_aggregate.py\<close>), and the unweighted mean where the total weight is 0.  For
  two points with RSSI -30 and -130 the weights are 100 and 0, and in double
  precision each axis of the result lies within a relative error of \<open>2\<close> to the power
  \<open>-50\<close> of the coordinate of the first point.
\<close>

theorem best_location_weighted_centroid:
  "compute_static_ap_coords g
     = spec_best_location 0 (map (\<lambda>r. (latitude r, longitude r, rssi r)) g)
   \<and> sa_best_location (map fst pts) (map (\<lambda>p. fst (snd p)) pts) (map (\<lambda>p. snd (snd p)) pts)
     = spec_best_location 1 pts
   \<and> map sa_weight [Some (- 30), Some (- 130)] = [100, 0]
   \<and> map (spec_weight fallback) [Some (- 30), Some (- 130)] = [100, 0]
   \<and> \<bar>weighted_axis_fl [x, y] [100, 0] - x\<bar> \<le> \<bar>x\<bar> / 2 ^ 50"
proof (intro conjI)
  show "compute_static_ap_coords g
     = spec_best_location 0 (map (\<lambda>r. (latitude r, longitude r, rssi r)) g)"
    by (rule compute_static_ap_coords_spec)
  show "sa_best_location (map fst pts) (map (\<lambda>p. fst (snd p)) pts) (map (\<lambda>p. snd (snd p)) pts)
     = spec_best_location 1 pts"
    by (rule sa_best_location_spec)
  show "map sa_weight [Some (- 30), Some (- 130)] = [100, 0]"
    by (simp add: sa_weight_def)
  show "map (spec_weight fallback) [Some (- 30), Some (- 130)] = [100, 0]"
    by (simp add: spec_weight_def)
  show "\<bar>weighted_axis_fl [x, y] [100, 0] - x\<bar> \<le> \<bar>x\<bar> / 2 ^ 50"
    by (rule weighted_axis_fl_close)
qed

text \<open>
  Claim C6 as stated fails at the word ``exactly'': the longitude -122.4194 is read as
  the float \<open>-8614499440983120 / 2 ^ 46\<close>; multiplied by the weight 100 and divided by
  the total weight 100, each operation rounded, it comes back as
  \<open>-8614499440983119 / 2 ^ 46\<close>, which prints as -122.41939999999998.
\<close>

theorem best_location_not_exact:
  "fl64 (- 122.4194) = - 8614499440983120 / 2 ^ 46
   \<and> weighted_axis_fl [fl64 (- 122.4194), fl64 (- 122.4)] [100, 0]
       = - 8614499440983119 / 2 ^ 46
   \<and> weighted_axis_fl [fl64 (- 122.4194), fl64 (- 122.4)] [100, 0] \<noteq> fl64 (- 122.4194)"
proof -
  have "weighted_axis_fl [fl64 (- 122.4194), fl64 (- 122.4)] [100, 0]
      = fl64 (fl64 (fl64 (fl64 (- 122.4194) * 100)) / 100)"
    by (rule weighted_axis_fl_two)
  also have "\<dots> = - 8614499440983119 / 2 ^ 46"
    by (simp only: read_lon lon_times_hundred lon_product_kept lon_divided)
  finally have r: "weighted_axis_fl [fl64 (- 122.4194), fl64 (- 122.4)] [100, 0]
      = - 8614499440983119 / 2 ^ 46" .
  have ne: "(- 8614499440983119 / 2 ^ 46 :: real) \<noteq> - 8614499440983120 / 2 ^ 46" by simp
  have "weighted_axis_fl [fl64 (- 122.4194), fl64 (- 122.4)] [100, 0] \<noteq> fl64 (- 122.4194)"
    by (subst r, subst read_lon, rule ne)
  with r read_lon show ?thesis by blast
qed

text \<open>
  Over the reals the two-point result is the first point itself.
\<close>

lemma best_location_two_points_real:
  "compute_static_ap_coords [d1\<lparr>rssi := Some (- 30)\<rparr>, d2\<lparr>rssi := Some (- 130)\<rparr>]
     = (latitude d1, longitude d1)
   \<and> sa_best_location [la1, la2] [lo1, lo2] [Some (- 30), Some (- 130)] = (la1, lo1)"
  by (simp add: compute_static_ap_coords_def sa_best_location_def sa_weight_def)

section \<open>Where the best location is present\<close>

text \<open>
  Claim C4, as amended.  In the result of \<open>AccessPointClassifier.classify\<close> the
  best location is empty exactly for the groups labelled CO\_TRAVELER; for the groups
  labelled STATIC and for those labelled UNKNOWN it is the weighted centroid of the
  group.
\<close>

theorem best_location_only_blank_for_cotraveler:
  "(lat (classify_group m s g), lon (classify_group m s g))
     = (if classification (classify_group m s g) = CoTraveler then (None, None)
        else (Some (fst (compute_static_ap_coords g)), Some (snd (compute_static_ap_coords g))))"
  by (rule classify_group_lat_lon)

text \<open>
  Claim C4 as stated fails: a group of one detection is labelled UNKNOWN and its
  result carries the location of that detection.
\<close>

theorem best_location_present_for_unknown:
  "classification (classify_group ''aa:bb:cc:dd:ee:ff'' ''HomeRouter'' [det 51.5 (- 0.12)]) = Unknown
   \<and> lat (classify_group ''aa:bb:cc:dd:ee:ff'' ''HomeRouter'' [det 51.5 (- 0.12)]) = Some 51.5
   \<and> lon (classify_group ''aa:bb:cc:dd:ee:ff'' ''HomeRouter'' [det 51.5 (- 0.12)]) = Some (- 0.12)"
proof -
  have "compute_static_ap_coords [det 51.5 (- 0.12)] = (51.5, - 0.12)"
    by (simp add: compute_static_ap_coords_def det_def)
  moreover have "classification (classify_group ''aa:bb:cc:dd:ee:ff'' ''HomeRouter'' [det 51.5 (- 0.12)]) = Unknown"
    by (simp add: classify_group_classification)
  ultimately show ?thesis
    using classify_group_lat_lon [of "''aa:bb:cc:dd:ee:ff''" "''HomeRouter''" "[det 51.5 (- 0.12)]"]
    by simp
qed

section \<open>The confidence score\<close>






lemma compute_max_distance_spec:
  "compute_max_distance grp = spec_max_spread (map (\<lambda>r. (c_latitude r, c_longitude r)) grp)"
proof (cases "length grp < 2")
  case True
  then show ?thesis by (simp add: compute_max_distance_def spec_max_spread_def)
next
  case False
  let ?cs = "map (\<lambda>r. (c_latitude r, c_longitude r)) grp"
  from False have ne: "pair_dists ?cs \<noteq> []" by (simp add: pair_dists_empty_iff)
  have "for_pairs
                (\<lambda>acc ci cj.
                   let d = haversine (fst ci) (snd ci) (fst cj) (snd cj)
                   in if d > acc then d else acc)
                ?cs 0
     = foldl (\<lambda>s (a, b). (\<lambda>acc d. if d > acc then d else acc) s
               (haversine (fst a) (snd a) (fst b) (snd b))) 0 (all_pairs ?cs)"
    unfolding for_pairs_all_pairs by (simp add: Let_def)
  also have "\<dots> = foldl (\<lambda>acc d. if d > acc then d else acc) 0 (pair_dists ?cs)"
    by (rule foldl_pair_dists)
  also have "\<dots> = Max (insert 0 (set (pair_dists ?cs)))"
    by (rule running_max)
  also have "\<dots> = Max (set (pair_dists ?cs))"
    by (rule Max_insert_0 [OF ne pair_dists_nonneg])
  finally show ?thesis using False
    by (simp add: compute_max_distance_def spec_max_spread_def Let_def)
qed

lemma flag_group_Some:
  assumes "grp \<noteq> []" "300 \<le> compute_max_distance grp"
  shows "\<exists>r. flag_group rnd m grp = Some r
     \<and> f_mac r = m
     \<and> f_detections r = length grp
     \<and> f_first_seen r = Min (set (map c_time_dt grp))
     \<and> f_last_seen r = Max (set (map c_time_dt grp))
     \<and> f_ssid r = join '', '' (sorted_set (dropna (map c_ssid grp)))"
  using assms by (cases grp) (simp_all add: flag_group_def Let_def)



section \<open>The spatial clusterer\<close>

lemma foldl_remove1_Cons_other:
  "\<forall>y \<in> set ys. y \<noteq> x \<Longrightarrow>
   foldl (\<lambda>xs idx. remove1 idx xs) (x # xs) ys = x # foldl (\<lambda>xs idx. remove1 idx xs) xs ys"
  by (induction ys arbitrary: xs) simp_all

lemma foldl_remove1_filter:
  "foldl (\<lambda>xs idx. remove1 idx xs) xs (filter P xs) = filter (\<lambda>x. \<not> P x) xs"
proof (induction xs)
  case Nil
  show ?case by simp
next
  case (Cons x xs)
  show ?case
  proof (cases "P x")
    case True
    then show ?thesis by (simp add: Cons.IH)
  next
    case False
    then have "\<forall>y \<in> set (filter P xs). y \<noteq> x" by auto
    then show ?thesis using False by (simp add: foldl_remove1_Cons_other Cons.IH)
  qed
qed

lemma mset_filter_split: "mset (filter P xs) + mset (filter (\<lambda>x. \<not> P x) xs) = mset xs"
  by (induction xs) simp_all

lemma length_filter_split: "length (filter P xs) + length (filter (\<lambda>x. \<not> P x) xs) = length xs"
  by (induction xs) simp_all

text \<open>One run of the inner loop.\<close>

lemma rescan_total:
  "length indices < fuel \<Longrightarrow>
   \<exists>cluster' indices'.
     rescan fuel records threshold cluster ctr indices = Some (cluster', indices')
     \<and> mset cluster' + mset indices' = mset cluster + mset indices
     \<and> length indices' \<le> length indices
     \<and> (\<exists>more. cluster' = cluster @ more)"
proof (induction fuel arbitrary: cluster ctr indices)
  case 0
  then show ?case by simp
next
  case (Suc fuel)
  let ?P = "\<lambda>idx. haversine (fst ctr) (snd ctr)
                   (latitude (loc records idx)) (longitude (loc records idx)) \<le> threshold"
  let ?rm = "filter ?P indices"
  let ?keep = "filter (\<lambda>x. \<not> ?P x) indices"
  let ?cl = "cluster @ ?rm"
  let ?ce = "if ?cl \<noteq> []
             then (mean (map (\<lambda>i. latitude (loc records i)) ?cl),
                   mean (map (\<lambda>i. longitude (loc records i)) ?cl))
             else ctr"
  have step: "rescan (Suc fuel) records threshold cluster ctr indices
      = (if ?rm \<noteq> [] then rescan fuel records threshold ?cl ?ce ?keep else Some (?cl, ?keep))"
    by (simp only: rescan.simps Let_def foldl_remove1_filter)
  have split: "mset ?rm + mset ?keep = mset indices" by (rule mset_filter_split)
  have len: "length ?rm + length ?keep = length indices" by (rule length_filter_split)
  show ?case
  proof (cases "?rm = []")
    case True
    then have res: "rescan (Suc fuel) records threshold cluster ctr indices = Some (?cl, ?keep)"
      unfolding step by simp
    have "mset ?cl + mset ?keep = mset cluster + mset indices"
      using split by (simp add: ac_simps)
    moreover have "length ?keep \<le> length indices" using len by linarith
    ultimately show ?thesis using res by blast
  next
    case False
    then have "0 < length ?rm" by simp
    with len Suc.prems have "length ?keep < fuel" by linarith
    from Suc.IH [OF this, of ?cl ?ce] obtain c' i' more where
      r: "rescan fuel records threshold ?cl ?ce ?keep = Some (c', i')"
      and m: "mset c' + mset i' = mset ?cl + mset ?keep"
      and l: "length i' \<le> length ?keep"
      and p: "c' = ?cl @ more"
      by blast
    have "mset c' + mset i' = mset cluster + mset indices"
      using m split by (simp add: ac_simps)
    moreover have "length i' \<le> length indices" using l len by linarith
    moreover have "c' = cluster @ (?rm @ more)" using p by simp
    moreover have "rescan (Suc fuel) records threshold cluster ctr indices = Some (c', i')"
      unfolding step using False r by simp
    ultimately show ?thesis by blast
  qed
qed

lemma rescan_fuel_mono:
  "rescan fuel records threshold cluster ctr indices = Some r \<Longrightarrow>
   rescan (fuel + k) records threshold cluster ctr indices = Some r"
proof (induction fuel arbitrary: cluster ctr indices)
  case 0
  then show ?case by simp
next
  case (Suc fuel)
  then show ?case by (simp add: Let_def split: if_splits)
qed

lemma cluster_loop_total:
  "length indices \<le> fuel \<Longrightarrow>
   \<exists>out.
     cluster_loop fuel records threshold clusters indices = Some out
     \<and> mset (concat out) = mset (concat clusters) + mset indices
     \<and> ([] \<in> set out \<longrightarrow> [] \<in> set clusters)
     \<and> length out \<le> length clusters + length indices"
proof (induction fuel arbitrary: clusters indices)
  case 0
  then show ?case by simp
next
  case (Suc fuel)
  show ?case
  proof (cases indices)
    case Nil
    then show ?thesis by simp
  next
    case (Cons current rest)
    with Suc.prems have "length rest < Suc fuel" by simp
    from rescan_total [OF this, of records threshold "[current]"
        "(latitude (loc records current), longitude (loc records current))"]
    obtain c' i' more where
      r: "rescan (Suc fuel) records threshold [current]
            (latitude (loc records current), longitude (loc records current)) rest = Some (c', i')"
      and m: "mset c' + mset i' = mset [current] + mset rest"
      and l: "length i' \<le> length rest"
      and p: "c' = [current] @ more"
      by blast
    from l Cons Suc.prems have "length i' \<le> fuel" by simp
    from Suc.IH [OF this, of "clusters @ [c']"] obtain out where
      o: "cluster_loop fuel records threshold (clusters @ [c']) i' = Some out"
      and om: "mset (concat out) = mset (concat (clusters @ [c'])) + mset i'"
      and oe: "[] \<in> set out \<longrightarrow> [] \<in> set (clusters @ [c'])"
      and ol: "length out \<le> length (clusters @ [c']) + length i'"
      by blast
    have 1: "cluster_loop (Suc fuel) records threshold clusters indices = Some out"
      using Cons r o by simp
    have 2: "mset (concat out) = mset (concat clusters) + mset indices"
      using om m Cons by (simp add: ac_simps)
    have 3: "[] \<in> set out \<longrightarrow> [] \<in> set clusters"
      using oe p by auto
    have 4: "length out \<le> length clusters + length indices"
      using ol l Cons by simp
    show ?thesis using 1 2 3 4 by blast
  qed
qed

lemma cluster_loop_fuel_mono:
  "cluster_loop fuel records threshold clusters indices = Some out \<Longrightarrow>
   cluster_loop (fuel + k) records threshold clusters indices = Some out"
proof (induction fuel arbitrary: clusters indices)
  case 0
  then show ?case by (cases indices) simp_all
next
  case (Suc fuel)
  show ?case
  proof (cases indices)
    case Nil
    with Suc.prems show ?thesis by simp
  next
    case (Cons current rest)
    with Suc.prems obtain c' i' where
      r: "rescan (Suc fuel) records threshold [current]
            (latitude (loc records current), longitude (loc records current)) rest = Some (c', i')"
      and o: "cluster_loop fuel records threshold (clusters @ [c']) i' = Some out"
      by (auto split: option.splits)
    from rescan_fuel_mono [OF r, of k]
    have r': "rescan (Suc (fuel + k)) records threshold [current]
            (latitude (loc records current), longitude (loc records current)) rest = Some (c', i')"
      by simp
    from Suc.IH [OF o] r' Cons show ?thesis by simp
  qed
qed

text \<open>
  Claim C7.  Given a budget of at least the number of rows, \<open>cluster_records\<close>
  returns clusters whose members, taken together, are exactly the labels of the
  input, each as often as it occurs there: no label is lost and none is added.  No
  cluster is empty, and when the labels are distinct no label is in two clusters or
  twice in one.
\<close>

theorem cluster_records_partition:
  assumes "length (index records) \<le> fuel"
  shows "\<exists>clusters.
     cluster_records fuel records threshold = Some clusters
     \<and> mset (concat clusters) = mset (index records)
     \<and> [] \<notin> set clusters
     \<and> distinct (concat clusters) = distinct (index records)"
proof -
  from cluster_loop_total [OF assms, of records threshold "[]"] obtain out where
    o: "cluster_loop fuel records threshold [] (index records) = Some out"
    and m': "mset (concat out) = mset (index records)"
    and e: "[] \<notin> set out"
    by auto
  from m' have "distinct (concat out) = distinct (index records)"
    by (rule mset_eq_imp_distinct_iff)
  with o m' e show ?thesis by (simp add: cluster_records_def)
qed

text \<open>The theorem at a frame of two rows, one at each pole.\<close>

theorem cluster_records_partition_witness:
  "length (index (centers_frame [(90, 1), (- 90, 1)])) \<le> 2
   \<and> (\<exists>clusters.
        cluster_records 2 (centers_frame [(90, 1), (- 90, 1)]) 50 = Some clusters
        \<and> mset (concat clusters) = mset [0, 1]
        \<and> [] \<notin> set clusters
        \<and> distinct (concat clusters))"
proof -
  have i: "index (centers_frame [(90, 1), (- 90, 1)]) = [0, 1]"
    by (simp add: centers_frame_def upt_rec)
  then have h: "length (index (centers_frame [(90, 1), (- 90, 1)])) \<le> 2" by simp
  show ?thesis
    using cluster_records_partition [OF h, of 50] h by (simp add: i)
qed

text \<open>
  Claim C8.  \<open>cluster_records\<close> terminates, for every threshold: a budget equal to
  the number of rows is enough for the outer loop and for every run of the inner
  loop, a larger budget returns the same clusters, and there are at most as many
  clusters as rows.  In \<open>rescan_total\<close>, each pass that moves a label shrinks the
  worklist and the cluster keeps its seed.
\<close>

theorem cluster_records_terminates:
  assumes "length (index records) \<le> fuel"
  shows "\<exists>clusters.
     cluster_records fuel records threshold = Some clusters
     \<and> cluster_records (length (index records)) records threshold = Some clusters
     \<and> length clusters \<le> length (index records)"
proof -
  from cluster_loop_total [of "index records" "length (index records)" records threshold "[]"]
  obtain out where
    o: "cluster_loop (length (index records)) records threshold [] (index records) = Some out"
    and l: "length out \<le> length [] + length (index records)"
    by auto
  from assms obtain k where k: "fuel = length (index records) + k"
    using le_Suc_ex by blast
  from cluster_loop_fuel_mono [OF o, of k]
  have "cluster_loop fuel records threshold [] (index records) = Some out"
    by (simp add: k)
  with o l show ?thesis by (simp add: cluster_records_def)
qed

text \<open>The theorem at the four rows of \<open>antimeridian_frame\<close>.\<close>

theorem cluster_records_terminates_witness:
  "length (index antimeridian_frame) \<le> 4
   \<and> (\<exists>clusters.
        cluster_records 4 antimeridian_frame 50 = Some clusters
        \<and> length clusters \<le> 4)"
proof -
  have i: "length (index antimeridian_frame) = 4"
    by (simp add: antimeridian_frame_def)
  then have h: "length (index antimeridian_frame) \<le> 4" by simp
  show ?thesis
    using cluster_records_terminates [OF h, of 50] h by (simp add: i)
qed

section \<open>Clustering the centres again\<close>

lemma pairwise_apart_nth:
  "pairwise_apart thr cs \<Longrightarrow> i < j \<Longrightarrow> j < length cs \<Longrightarrow>
   thr < haversine (fst (cs ! i)) (snd (cs ! i)) (fst (cs ! j)) (snd (cs ! j))"
proof (induction cs arbitrary: i j)
  case Nil
  then show ?case by simp
next
  case (Cons c cs)
  from Cons.prems obtain j' where j: "j = Suc j'" "j' < length cs"
    by (cases j) auto
  show ?case
  proof (cases i)
    case 0
    from Cons.prems(1) have "list_all (\<lambda>d. thr < haversine (fst c) (snd c) (fst d) (snd d)) cs"
      by simp
    then have "thr < haversine (fst c) (snd c) (fst (cs ! j')) (snd (cs ! j'))"
      using j(2) by (simp add: list_all_length)
    then show ?thesis using 0 j by simp
  next
    case (Suc i')
    with Cons.prems j have "pairwise_apart thr cs" "i' < j'" by simp_all
    from Cons.IH [OF this j(2)] show ?thesis using Suc j by simp
  qed
qed

lemma rescan_nothing_near:
  assumes "\<forall>idx \<in> set indices.
     \<not> haversine (fst ctr) (snd ctr) (latitude (loc records idx)) (longitude (loc records idx))
        \<le> threshold"
  shows "rescan (Suc fuel) records threshold cluster ctr indices = Some (cluster, indices)"
proof -
  have "filter (\<lambda>idx. haversine (fst ctr) (snd ctr)
                  (latitude (loc records idx)) (longitude (loc records idx)) \<le> threshold) indices = []"
    using assms by (simp add: filter_empty_conv)
  then show ?thesis by (simp add: Let_def)
qed

lemma cluster_loop_apart:
  assumes "pairwise_apart thr cs"
  shows "k \<le> length cs \<Longrightarrow> length cs - k \<le> fuel \<Longrightarrow>
    cluster_loop fuel (centers_frame cs) thr acc [k..<length cs]
      = Some (acc @ map (\<lambda>i. [i]) [k..<length cs])"
proof (induction fuel arbitrary: k acc)
  case 0
  then have "[k..<length cs] = []" by simp
  then show ?case by (simp only: cluster_loop.simps list.map append_Nil2)
next
  case (Suc fuel)
  show ?case
  proof (cases "k = length cs")
    case True
    then show ?thesis by simp
  next
    case False
    with Suc.prems have lt: "k < length cs" by simp
    then have up: "[k..<length cs] = k # [Suc k..<length cs]" by (rule upt_conv_Cons)
    have far: "\<forall>idx \<in> set [Suc k..<length cs].
       \<not> haversine (fst (latitude (loc (centers_frame cs) k), longitude (loc (centers_frame cs) k)))
            (snd (latitude (loc (centers_frame cs) k), longitude (loc (centers_frame cs) k)))
            (latitude (loc (centers_frame cs) idx)) (longitude (loc (centers_frame cs) idx)) \<le> thr"
    proof
      fix idx assume "idx \<in> set [Suc k..<length cs]"
      then have "k < idx" "idx < length cs" by simp_all
      from pairwise_apart_nth [OF assms this]
      show "\<not> haversine (fst (latitude (loc (centers_frame cs) k), longitude (loc (centers_frame cs) k)))
            (snd (latitude (loc (centers_frame cs) k), longitude (loc (centers_frame cs) k)))
            (latitude (loc (centers_frame cs) idx)) (longitude (loc (centers_frame cs) idx)) \<le> thr"
        by (simp add: centers_frame_def det_def)
    qed
    have r: "rescan (Suc fuel) (centers_frame cs) thr [k]
        (latitude (loc (centers_frame cs) k), longitude (loc (centers_frame cs) k))
        [Suc k..<length cs] = Some ([k], [Suc k..<length cs])"
      by (rule rescan_nothing_near [OF far])
    from lt Suc.prems have "Suc k \<le> length cs" "length cs - Suc k \<le> fuel" by simp_all
    from Suc.IH [OF this, of "acc @ [[k]]"]
    show ?thesis by (simp only: up cluster_loop.simps r option.case prod.case list.map append_assoc append_Cons append_Nil)
  qed
qed

lemma mean_single: "mean [x] = x"
  by (simp add: mean_def)

lemma recluster_apart:
  assumes "pairwise_apart threshold cs"
  shows "cluster_centers (length cs) (centers_frame cs) threshold = Some cs"
proof -
  have "cluster_records (length cs) (centers_frame cs) threshold
      = Some (map (\<lambda>i. [i]) [0..<length cs])"
    using cluster_loop_apart [OF assms, of 0 "length cs" "[]"]
    by (simp add: cluster_records_def centers_frame_def)
  moreover have "map (\<lambda>clust. center (aggregate_cluster (centers_frame cs) clust))
                   (map (\<lambda>i. [i]) [0..<length cs]) = map ((!) cs) [0..<length cs]"
    by (simp add: aggregate_cluster_def centers_frame_def det_def mean_single)
  ultimately show ?thesis by (simp add: cluster_centers_def map_nth)
qed

lemma rescan_result:
  "rescan fuel records threshold cluster ctr indices = Some (c', i') \<Longrightarrow>
   length i' \<le> length indices
   \<and> ((\<forall>idx \<in> set indices.
          \<not> haversine (fst ctr) (snd ctr) (latitude (loc records idx)) (longitude (loc records idx))
             \<le> threshold)
        \<or> length i' < length indices)"
proof (induction fuel arbitrary: cluster ctr indices)
  case 0
  then show ?case by simp
next
  case (Suc fuel)
  let ?P = "\<lambda>idx. haversine (fst ctr) (snd ctr)
                   (latitude (loc records idx)) (longitude (loc records idx)) \<le> threshold"
  let ?rm = "filter ?P indices"
  let ?keep = "filter (\<lambda>x. \<not> ?P x) indices"
  let ?cl = "cluster @ ?rm"
  let ?ce = "if ?cl \<noteq> []
             then (mean (map (\<lambda>i. latitude (loc records i)) ?cl),
                   mean (map (\<lambda>i. longitude (loc records i)) ?cl))
             else ctr"
  have step: "rescan (Suc fuel) records threshold cluster ctr indices
      = (if ?rm \<noteq> [] then rescan fuel records threshold ?cl ?ce ?keep else Some (?cl, ?keep))"
    by (simp only: rescan.simps Let_def foldl_remove1_filter)
  have len: "length ?rm + length ?keep = length indices" by (rule length_filter_split)
  show ?case
  proof (cases "?rm = []")
    case True
    then have "\<forall>idx \<in> set indices. \<not> ?P idx" by (simp add: filter_empty_conv)
    moreover from True Suc.prems have "i' = ?keep" unfolding step by simp
    then have "length i' \<le> length indices" using len by simp
    ultimately show ?thesis by blast
  next
    case False
    then have pos: "0 < length ?rm" by simp
    from False Suc.prems have "rescan fuel records threshold ?cl ?ce ?keep = Some (c', i')"
      unfolding step by simp
    from Suc.IH [OF this] have "length i' \<le> length ?keep" by blast
    with pos len have "length i' < length indices" by linarith
    then show ?thesis by simp
  qed
qed

lemma cluster_loop_count:
  "cluster_loop fuel records threshold clusters indices = Some out \<Longrightarrow>
   length out \<le> length clusters + length indices
   \<and> (length out = length clusters + length indices \<longrightarrow>
        (\<forall>i < length indices. \<forall>j < length indices. i < j \<longrightarrow>
           \<not> haversine (latitude (loc records (indices ! i))) (longitude (loc records (indices ! i)))
                (latitude (loc records (indices ! j))) (longitude (loc records (indices ! j)))
              \<le> threshold))"
proof (induction fuel arbitrary: clusters indices)
  case 0
  then show ?case by (cases indices) simp_all
next
  case (Suc fuel)
  show ?case
  proof (cases indices)
    case Nil
    with Suc.prems show ?thesis by simp
  next
    case (Cons current rest)
    let ?ctr = "(latitude (loc records current), longitude (loc records current))"
    from Suc.prems Cons obtain c' i' where
      r: "rescan (Suc fuel) records threshold [current] ?ctr rest = Some (c', i')"
      and o: "cluster_loop fuel records threshold (clusters @ [c']) i' = Some out"
      by (auto split: option.splits)
    from rescan_result [OF r] have
      l: "length i' \<le> length rest"
      and alt: "(\<forall>idx \<in> set rest.
          \<not> haversine (latitude (loc records current)) (longitude (loc records current))
               (latitude (loc records idx)) (longitude (loc records idx)) \<le> threshold)
        \<or> length i' < length rest"
      by simp_all
    from Suc.IH [OF o] have
      ol: "length out \<le> length (clusters @ [c']) + length i'"
      and oa: "length out = length (clusters @ [c']) + length i' \<longrightarrow>
        (\<forall>i < length i'. \<forall>j < length i'. i < j \<longrightarrow>
           \<not> haversine (latitude (loc records (i' ! i))) (longitude (loc records (i' ! i)))
                (latitude (loc records (i' ! j))) (longitude (loc records (i' ! j)))
              \<le> threshold)"
      by simp_all
    have 1: "length out \<le> length clusters + length indices"
      using ol l Cons by simp
    have 2: "length out = length clusters + length indices \<longrightarrow>
        (\<forall>i < length indices. \<forall>j < length indices. i < j \<longrightarrow>
           \<not> haversine (latitude (loc records (indices ! i))) (longitude (loc records (indices ! i)))
                (latitude (loc records (indices ! j))) (longitude (loc records (indices ! j)))
              \<le> threshold)"
    proof
      assume full: "length out = length clusters + length indices"
      with ol l Cons have li: "length i' = length rest" by simp
      with alt have far: "\<forall>idx \<in> set rest.
          \<not> haversine (latitude (loc records current)) (longitude (loc records current))
               (latitude (loc records idx)) (longitude (loc records idx)) \<le> threshold"
        by simp
      then have "filter (\<lambda>idx. haversine (fst ?ctr) (snd ?ctr)
                   (latitude (loc records idx)) (longitude (loc records idx)) \<le> threshold) rest = []"
        by (simp add: filter_empty_conv)
      with r have ie: "i' = rest" by (simp add: Let_def)
      from full li Cons have "length out = length (clusters @ [c']) + length i'" by simp
      with oa ie have rest_apart: "\<forall>i < length rest. \<forall>j < length rest. i < j \<longrightarrow>
           \<not> haversine (latitude (loc records (rest ! i))) (longitude (loc records (rest ! i)))
                (latitude (loc records (rest ! j))) (longitude (loc records (rest ! j)))
              \<le> threshold"
        by simp
      show "\<forall>i < length indices. \<forall>j < length indices. i < j \<longrightarrow>
           \<not> haversine (latitude (loc records (indices ! i))) (longitude (loc records (indices ! i)))
                (latitude (loc records (indices ! j))) (longitude (loc records (indices ! j)))
              \<le> threshold"
      proof (intro allI impI)
        fix i j assume ij: "i < length indices" "j < length indices" "i < j"
        then obtain j' where j': "j = Suc j'" "j' < length rest"
          using Cons by (cases j) auto
        show "\<not> haversine (latitude (loc records (indices ! i))) (longitude (loc records (indices ! i)))
                (latitude (loc records (indices ! j))) (longitude (loc records (indices ! j)))
              \<le> threshold"
        proof (cases i)
          case 0
          from far j'(2) have "\<not> haversine (latitude (loc records current)) (longitude (loc records current))
               (latitude (loc records (rest ! j'))) (longitude (loc records (rest ! j'))) \<le> threshold"
            by simp
          with 0 j' Cons show ?thesis by simp
        next
          case (Suc i'')
          with ij j' have "i'' < length rest" "i'' < j'" by simp_all
          with rest_apart j'(2) have "\<not> haversine (latitude (loc records (rest ! i''))) (longitude (loc records (rest ! i'')))
                (latitude (loc records (rest ! j'))) (longitude (loc records (rest ! j')))
              \<le> threshold"
            by blast
          with Suc j' Cons show ?thesis by simp
        qed
      qed
    qed
    from 1 2 show ?thesis by blast
  qed
qed

lemma pairwise_apart_iff_nth:
  "pairwise_apart thr cs \<longleftrightarrow>
     (\<forall>i < length cs. \<forall>j < length cs. i < j \<longrightarrow>
        thr < haversine (fst (cs ! i)) (snd (cs ! i)) (fst (cs ! j)) (snd (cs ! j)))"
proof
  assume "pairwise_apart thr cs"
  then show "\<forall>i < length cs. \<forall>j < length cs. i < j \<longrightarrow>
        thr < haversine (fst (cs ! i)) (snd (cs ! i)) (fst (cs ! j)) (snd (cs ! j))"
    using pairwise_apart_nth by blast
next
  show "\<forall>i < length cs. \<forall>j < length cs. i < j \<longrightarrow>
        thr < haversine (fst (cs ! i)) (snd (cs ! i)) (fst (cs ! j)) (snd (cs ! j))
      \<Longrightarrow> pairwise_apart thr cs"
  proof (induction cs)
    case Nil
    show ?case by simp
  next
    case (Cons c cs)
    have head: "list_all (\<lambda>d. thr < haversine (fst c) (snd c) (fst d) (snd d)) cs"
      unfolding list_all_length
    proof (intro allI impI)
      fix n assume "n < length cs"
      with Cons.prems [rule_format, of 0 "Suc n"]
      show "thr < haversine (fst c) (snd c) (fst (cs ! n)) (snd (cs ! n))" by simp
    qed
    have "\<forall>i < length cs. \<forall>j < length cs. i < j \<longrightarrow>
        thr < haversine (fst (cs ! i)) (snd (cs ! i)) (fst (cs ! j)) (snd (cs ! j))"
    proof (intro allI impI)
      fix i j assume "i < length cs" "j < length cs" "i < j"
      with Cons.prems [rule_format, of "Suc i" "Suc j"]
      show "thr < haversine (fst (cs ! i)) (snd (cs ! i)) (fst (cs ! j)) (snd (cs ! j))" by simp
    qed
    from Cons.IH [OF this] head show ?case by simp
  qed
qed

lemma recluster_identity_apart:
  assumes "cluster_centers fuel (centers_frame cs) threshold = Some cs"
  shows "pairwise_apart threshold cs"
proof -
  from assms obtain out where
    o: "cluster_records fuel (centers_frame cs) threshold = Some out"
    and c: "map (\<lambda>clust. center (aggregate_cluster (centers_frame cs) clust)) out = cs"
    by (auto simp: cluster_centers_def)
  from c have len: "length out = length cs" by (metis length_map)
  from o have "cluster_loop fuel (centers_frame cs) threshold [] [0..<length cs] = Some out"
    by (simp add: cluster_records_def centers_frame_def)
  from cluster_loop_count [OF this] len
  have "\<forall>i < length cs. \<forall>j < length cs. i < j \<longrightarrow>
           \<not> haversine (latitude (loc (centers_frame cs) i)) (longitude (loc (centers_frame cs) i))
                (latitude (loc (centers_frame cs) j)) (longitude (loc (centers_frame cs) j))
              \<le> threshold"
    by simp
  then show ?thesis
    by (simp add: pairwise_apart_iff_nth centers_frame_def det_def not_le)
qed

text \<open>
  Claim C9, as amended.  Running the clusterer again, with the same threshold, on a
  list of centres returns exactly those centres if and only if each of them is more
  than the threshold away from every later one.
\<close>

theorem recluster_apart_identity:
  "cluster_centers (length cs) (centers_frame cs) threshold = Some cs
     \<longleftrightarrow> pairwise_apart threshold cs"
  using recluster_apart recluster_identity_apart by blast

text \<open>The theorem at two centres, one at each pole, with the threshold 50 m.\<close>

theorem recluster_apart_identity_witness:
  "pairwise_apart 50 [(90, 1), (- 90, 1)]
   \<and> cluster_centers (length [(90::real, 1::real), (- 90, 1)])
        (centers_frame [(90, 1), (- 90, 1)]) 50 = Some [(90, 1), (- 90, 1)]"
proof -
  have "50 < 6371000 * pi" using pi_ge_two by simp
  then have h: "pairwise_apart 50 [(90, 1), (- 90, 1)]"
    by (simp add: haversine_poles)
  show ?thesis using recluster_apart_identity [of "[(90, 1), (- 90, 1)]" 50] h by simp
qed

subsection \<open>Centres that the second run merges\<close>

text \<open>
  Distances on the sphere that the counterexample needs: a lower bound for points far
  apart in longitude, and the exact distance along a meridian.
\<close>

lemma cos_ge_half: "0 \<le> x \<Longrightarrow> x \<le> pi / 3 \<Longrightarrow> 1 / 2 \<le> cos x"
proof -
  assume x: "0 \<le> x" "x \<le> pi / 3"
  have "pi / 3 \<le> pi" by simp
  from cos_monotone_0_pi_le [OF x this] show ?thesis by (simp add: cos_60)
qed

lemma arctan_quarter_lower: "1 / 1000 \<le> arctan (1 / 4)"
proof -
  let ?t = "1 / 1000 :: real"
  have t3: "?t \<le> pi / 3" using pi_ge_two by simp
  have c: "1 / 2 \<le> cos ?t" by (rule cos_ge_half) (simp, rule t3)
  have s: "sin ?t \<le> ?t" by (rule sin_x_le_x) simp
  have "tan ?t = sin ?t / cos ?t" by (simp add: tan_def)
  also have "\<dots> \<le> ?t / (1 / 2)" by (rule frac_le) (use s c in simp_all)
  also have "\<dots> \<le> 1 / 4" by simp
  finally have "tan ?t \<le> 1 / 4" .
  then have "arctan (tan ?t) \<le> arctan (1 / 4)" by (simp only: arctan_le_iff)
  moreover have "arctan (tan ?t) = ?t"
    by (rule arctan_tan) (use pi_ge_two in simp_all)
  ultimately show ?thesis by simp
qed

lemma atan2_lower:
  assumes "1 / 4 \<le> y" "x \<le> 1"
  shows "1 / 1000 \<le> atan2 y x"
proof -
  consider "0 < x" | "x < 0" | "x = 0" by linarith
  then show ?thesis
  proof cases
    case 1
    have "y \<le> y / x" using 1 assms by (simp add: le_divide_eq)
    with assms(1) have "1 / 4 \<le> y / x" by linarith
    then have "arctan (1 / 4) \<le> arctan (y / x)" by (simp only: arctan_le_iff)
    with arctan_quarter_lower 1 show ?thesis by (simp add: atan2_def)
  next
    case 2
    have "- (pi / 2) < arctan (y / x)" by (rule arctan_lbound)
    moreover have "2 \<le> pi" by (rule pi_ge_two)
    ultimately have "1 / 1000 \<le> arctan (y / x) + pi" by linarith
    with 2 assms show ?thesis by (simp add: atan2_def)
  next
    case 3
    have "2 \<le> pi" by (rule pi_ge_two)
    then have "1 / 1000 \<le> pi / 2" by simp
    with 3 assms show ?thesis by (simp add: atan2_def)
  qed
qed

lemma haversine_far:
  assumes "1 / 16 \<le> cos (radians lat1) * cos (radians lat2) * (sin (radians (lon2 - lon1) / 2))\<^sup>2"
  shows "12742 \<le> haversine lat1 lon1 lat2 lon2"
proof -
  define a where "a = (sin (radians (lat2 - lat1) / 2))\<^sup>2
     + cos (radians lat1) * cos (radians lat2) * (sin (radians (lon2 - lon1) / 2))\<^sup>2"
  have a: "1 / 16 \<le> a" using assms by (simp add: a_def add_increasing)
  have "(1 / 4)\<^sup>2 \<le> a" using a by (simp add: power2_eq_square)
  then have y: "1 / 4 \<le> sqrt a" by (rule real_le_rsqrt)
  have x: "sqrt (1 - a) \<le> 1" using a by simp
  have "1 / 1000 \<le> atan2 (sqrt a) (sqrt (1 - a))" by (rule atan2_lower [OF y x])
  then show ?thesis by (simp add: haversine_def Let_def a_def)
qed

lemma haversine_same_meridian:
  assumes "\<bar>radians (lat2 - lat1)\<bar> \<le> 1"
  shows "haversine lat1 lo lat2 lo = 6371000 * \<bar>radians (lat2 - lat1)\<bar>"
proof -
  define u where "u = radians (lat2 - lat1) / 2"
  have u: "\<bar>u\<bar> \<le> 1 / 2" using assms by (simp add: u_def)
  have half: "1 / 2 < pi / 2" using pi_ge_two by simp
  have ub: "- (1 / 2) \<le> u" "u \<le> 1 / 2" using u by (simp_all add: abs_le_iff)
  have ul: "- (pi / 2) < u" "u < pi / 2" using ub half by linarith+
  have up: "u \<le> pi" "- u \<le> pi" using ub half by linarith+
  have al: "- (pi / 2) < \<bar>u\<bar>" "\<bar>u\<bar> < pi / 2" using u half by linarith+
  have cu: "0 < cos u" by (rule cos_gt_zero_pi [OF ul])
  have sq: "1 - (sin u)\<^sup>2 = (cos u)\<^sup>2" by (simp add: cos_squared_eq)
  have x: "sqrt (1 - (sin u)\<^sup>2) = cos u" using cu by (simp add: sq)
  have y: "sqrt ((sin u)\<^sup>2) = \<bar>sin u\<bar>" by simp
  have t: "\<bar>sin u\<bar> / cos u = tan \<bar>u\<bar>"
  proof (cases "0 \<le> u")
    case True
    then have "0 \<le> sin u" using up by (intro sin_ge_zero)
    with True show ?thesis by (simp add: tan_def)
  next
    case False
    then have "0 \<le> - u" by simp
    then have "0 \<le> sin (- u)" using up by (intro sin_ge_zero)
    with False show ?thesis by (simp add: tan_def)
  qed
  have "atan2 \<bar>sin u\<bar> (cos u) = arctan (tan \<bar>u\<bar>)"
    using cu by (simp add: atan2_def t)
  also have "\<dots> = \<bar>u\<bar>"
    by (rule arctan_tan [OF al])
  finally have "atan2 (sqrt ((sin u)\<^sup>2)) (sqrt (1 - (sin u)\<^sup>2)) = \<bar>u\<bar>"
    by (simp only: x y)
  moreover have "radians 0 = 0" by (simp add: radians_def)
  ultimately have "haversine lat1 lo lat2 lo = 6371000 * (2 * \<bar>u\<bar>)"
    by (simp add: haversine_def Let_def u_def)
  then show ?thesis by (simp add: u_def)
qed

lemma far_east: "12742 \<le> haversine 45.0001 60 45 180"
proof (rule haversine_far)
  have r1: "0 \<le> radians 45.0001" "radians 45.0001 \<le> pi / 3"
    by (simp_all add: radians_def)
  have r2: "0 \<le> radians 45" "radians 45 \<le> pi / 3"
    by (simp_all add: radians_def)
  have c1: "1 / 2 \<le> cos (radians 45.0001)" by (rule cos_ge_half [OF r1])
  have c2: "1 / 2 \<le> cos (radians 45)" by (rule cos_ge_half [OF r2])
  have e: "radians (180 - 60) / 2 = pi / 3" by (simp add: radians_def)
  have "(sin (pi / 3))\<^sup>2 = 3 / 4" by (simp add: sin_60 power_divide)
  then have s: "(sin (radians (180 - 60) / 2))\<^sup>2 = 3 / 4"
    by (simp only: e)
  have "1 / 2 * (1 / 2) \<le> cos (radians 45.0001) * cos (radians 45)"
    by (rule mult_mono) (use c1 c2 in simp_all)
  then show "1 / 16 \<le> cos (radians 45.0001) * cos (radians 45)
      * (sin (radians (180 - 60) / 2))\<^sup>2"
    unfolding s by simp
qed

lemma far_west: "12742 \<le> haversine 45.0001 60 45 (- 180)"
proof (rule haversine_far)
  have r1: "0 \<le> radians 45.0001" "radians 45.0001 \<le> pi / 3"
    by (simp_all add: radians_def)
  have r2: "0 \<le> radians 45" "radians 45 \<le> pi / 3"
    by (simp_all add: radians_def)
  have c1: "1 / 2 \<le> cos (radians 45.0001)" by (rule cos_ge_half [OF r1])
  have c2: "1 / 2 \<le> cos (radians 45)" by (rule cos_ge_half [OF r2])
  have e: "radians (- 180 - 60) / 2 = - (pi - pi / 3)" by (simp add: radians_def)
  have "(sin (- (pi - pi / 3)))\<^sup>2 = (sin (pi / 3))\<^sup>2"
    by (simp only: sin_minus sin_pi_minus power2_minus)
  also have "\<dots> = 3 / 4" by (simp add: sin_60 power_divide)
  finally have s: "(sin (radians (- 180 - 60) / 2))\<^sup>2 = 3 / 4"
    by (simp only: e)
  have "1 / 2 * (1 / 2) \<le> cos (radians 45.0001) * cos (radians 45)"
    by (rule mult_mono) (use c1 c2 in simp_all)
  then show "1 / 16 \<le> cos (radians 45.0001) * cos (radians 45)
      * (sin (radians (- 180 - 60) / 2))\<^sup>2"
    unfolding s by simp
qed

lemma near_centres: "haversine 45.0001 60 45 60 \<le> 50"
proof -
  have r: "\<bar>radians (45 - 45.0001)\<bar> = pi / 1800000"
    by (simp add: radians_def)
  have "pi / 1800000 \<le> 1" using pi_less_4 by simp
  then have "\<bar>radians (45 - 45.0001)\<bar> \<le> 1" by (simp only: r)
  from haversine_same_meridian [OF this, of 60]
  have "haversine 45.0001 60 45 60 = 6371000 * (pi / 1800000)"
    by (simp only: r)
  also have "\<dots> \<le> 50" using pi_less_4 by simp
  finally show ?thesis .
qed

lemma across_antimeridian: "haversine 45 180 45 (- 180) = 0"
  by (simp add: haversine_def atan2_def radians_def Let_def)

lemma antimeridian_clusters:
  "cluster_records 4 antimeridian_frame 50 = Some [[0], [1, 2, 3]]"
proof -
  have f1: "\<not> haversine 45.0001 60 45 180 \<le> 50" using far_east by linarith
  have f2: "\<not> haversine 45.0001 60 45 (- 180) \<le> 50" using far_west by linarith
  show ?thesis
    using f1 f2
    by (simp add: cluster_records_def antimeridian_frame_def eval_nat_numeral Let_def det_def
        haversine_same across_antimeridian)
qed

lemma antimeridian_centers:
  "cluster_centers 4 antimeridian_frame 50 = Some [(45.0001, 60), (45, 60)]"
  by (simp add: cluster_centers_def antimeridian_clusters aggregate_cluster_def mean_def)
     (simp add: antimeridian_frame_def det_def)

lemma centres_merge:
  "cluster_centers 2 (centers_frame [(45.0001, 60), (45, 60)]) 50 = Some [(45.00005, 60)]"
proof -
  have "cluster_records 2 (centers_frame [(45.0001, 60), (45, 60)]) 50 = Some [[0, 1]]"
    using near_centres
    by (simp add: cluster_records_def centers_frame_def eval_nat_numeral Let_def det_def
        upt_rec)
  then show ?thesis
    by (simp add: cluster_centers_def aggregate_cluster_def mean_def centers_frame_def det_def)
qed

text \<open>
  Claim C9 as stated fails.  On \<open>antimeridian_frame\<close> with the threshold 50 m the
  clusterer returns two clusters: the first detection alone, and the three detections
  on the antimeridian, whose centre is the mean of the longitudes 180, 180 and -180,
  that is 60.  The two centres are 11 m apart, and the second run merges them into
  one centre.
\<close>

theorem recluster_merges_centres:
  "cluster_centers 4 antimeridian_frame 50 = Some [(45.0001, 60), (45, 60)]
   \<and> cluster_centers 2 (centers_frame [(45.0001, 60), (45, 60)]) 50 = Some [(45.00005, 60)]"
  using antimeridian_centers centres_merge by simp

section \<open>Flagged records are keyed by MAC\<close>

lemma groupby_keys: "map fst (groupby key rows) = sort (remdups (map key rows))"
  by (simp add: groupby_def o_def)

lemma groupby_keys_distinct: "distinct (map fst (groupby key rows))"
  by (simp add: groupby_keys)

lemma groupby_set:
  "set (groupby key rows) = (\<lambda>k. (k, filter (\<lambda>r. key r = k) rows)) ` key ` set rows"
  by (simp add: groupby_def)

lemma flag_group_mac: "flag_group rnd m grp = Some r \<Longrightarrow> f_mac r = m"
  by (auto simp: flag_group_def Let_def split: if_splits)

lemma main_macs:
  "map f_mac (main rnd df)
     = map fst (filter (\<lambda>(m, grp). flag_group rnd m grp \<noteq> None) (groupby c_mac (drop_invalid df)))"
proof -
  have "map f_mac (List.map_filter (\<lambda>(m, grp). flag_group rnd m grp) gs)
      = map fst (filter (\<lambda>(m, grp). flag_group rnd m grp \<noteq> None) gs)" for gs
    by (induction gs) (auto simp: flag_group_mac split: option.splits)
  then show ?thesis by (simp add: main_def)
qed

lemma main_distinct: "distinct (map f_mac (main rnd df))"
  unfolding main_macs by (rule distinct_map_filter) (rule groupby_keys_distinct)

lemma in_set_map_filter:
  "y \<in> set (List.map_filter f xs) \<longleftrightarrow> (\<exists>x \<in> set xs. f x = Some y)"
  by (induction xs) (auto split: option.splits)

lemma main_member:
  "r \<in> set (main rnd df) \<longleftrightarrow>
     (\<exists>m \<in> c_mac ` set (drop_invalid df).
        flag_group rnd m (filter (\<lambda>x. c_mac x = m) (drop_invalid df)) = Some r)"
  by (auto simp: main_def in_set_map_filter groupby_set)

lemma main_group:
  assumes "r \<in> set (main rnd df)"
  shows "flag_group rnd (f_mac r) (filter (\<lambda>x. c_mac x = f_mac r) (drop_invalid df)) = Some r"
proof -
  from assms obtain m where
    "flag_group rnd m (filter (\<lambda>x. c_mac x = m) (drop_invalid df)) = Some r"
    by (auto simp: main_member)
  moreover from this have "f_mac r = m" by (rule flag_group_mac)
  ultimately show ?thesis by simp
qed

lemma flag_group_fields:
  assumes "flag_group rnd m grp = Some r"
  shows "f_detections r = length grp"
    and "f_ssid r = join '', '' (sorted_set (dropna (map c_ssid grp)))"
    and "f_first_seen r = Min (set (map c_time_dt grp))"
    and "f_last_seen r = Max (set (map c_time_dt grp))"
    and "grp \<noteq> []"
    and "300 \<le> compute_max_distance grp"
  using assms by (auto simp: flag_group_def Let_def split: if_splits)

lemma main_flags:
  assumes "m \<in> c_mac ` set (drop_invalid df)"
    and "300 \<le> compute_max_distance (filter (\<lambda>x. c_mac x = m) (drop_invalid df))"
  shows "m \<in> set (map f_mac (main rnd df))"
proof -
  let ?g = "filter (\<lambda>x. c_mac x = m) (drop_invalid df)"
  from assms(1) have "?g \<noteq> []" by (auto simp: filter_empty_conv)
  from flag_group_Some [OF this assms(2), of rnd m] obtain r where
    "flag_group rnd m ?g = Some r" "f_mac r = m" by blast
  with assms(1) have "r \<in> set (main rnd df)" by (auto simp: main_member)
  with \<open>f_mac r = m\<close> show ?thesis by force
qed

lemma sorted_set_example: "sorted_set [''HomeRouter'', ''Guest''] = [''Guest'', ''HomeRouter'']"
  by code_simp

text \<open>
  Claim C10.  \<open>main\<close> produces at most one record per MAC.  The record of a MAC is
  the body of the loop run on all the rows with that MAC that survived the two
  \<open>dropna\<close> calls, whatever their SSID: its count is their number, their maximum
  spread is at least 300 m, and their distinct SSIDs are joined into one field; the
  spread, the time range and the confidence it stores are those of that whole group.
  A MAC whose rows, taken together, spread over at least 300 m has a record.
\<close>

theorem records_keyed_by_mac:
  "distinct (map f_mac (main rnd df))
   \<and> (\<forall>r \<in> set (main rnd df).
        flag_group rnd (f_mac r) (filter (\<lambda>x. c_mac x = f_mac r) (drop_invalid df)) = Some r
        \<and> f_detections r = length (filter (\<lambda>x. c_mac x = f_mac r) (drop_invalid df))
        \<and> 300 \<le> compute_max_distance (filter (\<lambda>x. c_mac x = f_mac r) (drop_invalid df))
        \<and> f_ssid r
            = join '', '' (sorted_set (dropna (map c_ssid
                (filter (\<lambda>x. c_mac x = f_mac r) (drop_invalid df))))))
   \<and> (\<forall>m \<in> c_mac ` set (drop_invalid df).
        300 \<le> compute_max_distance (filter (\<lambda>x. c_mac x = m) (drop_invalid df))
        \<longrightarrow> m \<in> set (map f_mac (main rnd df)))"
proof (intro conjI ballI impI)
  show "distinct (map f_mac (main rnd df))" by (rule main_distinct)
next
  fix m
  assume "m \<in> c_mac ` set (drop_invalid df)"
    and "300 \<le> compute_max_distance (filter (\<lambda>x. c_mac x = m) (drop_invalid df))"
  then show "m \<in> set (map f_mac (main rnd df))" by (rule main_flags)
next
  fix r assume r: "r \<in> set (main rnd df)"
  note g = main_group [OF r]
  show "flag_group rnd (f_mac r) (filter (\<lambda>x. c_mac x = f_mac r) (drop_invalid df)) = Some r"
    by (rule g)
  show "f_detections r = length (filter (\<lambda>x. c_mac x = f_mac r) (drop_invalid df))"
    by (rule flag_group_fields(1) [OF g])
  show "300 \<le> compute_max_distance (filter (\<lambda>x. c_mac x = f_mac r) (drop_invalid df))"
    by (rule flag_group_fields(6) [OF g])
  show "f_ssid r
            = join '', '' (sorted_set (dropna (map c_ssid
                (filter (\<lambda>x. c_mac x = f_mac r) (drop_invalid df)))))"
    by (rule flag_group_fields(2) [OF g])
qed

lemma london_spread: "haversine 51.5 (- 0.12) 51.6 (- 0.12) = 6371000 * (pi / 1800)"
proof -
  have r: "\<bar>radians (51.6 - 51.5)\<bar> = pi / 1800" by (simp add: radians_def)
  have "pi / 1800 \<le> 1" using pi_less_4 by simp
  then have "\<bar>radians (51.6 - 51.5)\<bar> \<le> 1" by (simp only: r)
  from haversine_same_meridian [OF this, of "- 0.12"] show ?thesis by (simp only: r)
qed

lemma london_spread_flagged: "300 \<le> 6371000 * (pi / 1800)"
  using pi_ge_two by simp

lemma two_ssid_clean:
  "drop_invalid two_ssid_rows =
     [crow ''aa:bb:cc:dd:ee:ff'' ''HomeRouter'' 0 51.5 (- 0.12),
      crow ''aa:bb:cc:dd:ee:ff'' ''Guest'' 7200 51.6 (- 0.12)]"
  by (simp add: drop_invalid_def two_ssid_rows_def to_clean_def wrow_def crow_def)

text \<open>
  The theorem at \<open>two_ssid_rows\<close>: the two rows, under different SSIDs, make one
  record of two detections that names both SSIDs.
\<close>

theorem records_keyed_by_mac_witness:
  "''aa:bb:cc:dd:ee:ff'' \<in> c_mac ` set (drop_invalid two_ssid_rows)
   \<and> 300 \<le> compute_max_distance
        (filter (\<lambda>x. c_mac x = ''aa:bb:cc:dd:ee:ff'') (drop_invalid two_ssid_rows))
   \<and> (\<forall>rnd. \<exists>r. r \<in> set (main rnd two_ssid_rows)
        \<and> f_mac r = ''aa:bb:cc:dd:ee:ff''
        \<and> f_detections r = 2
        \<and> f_ssid r = ''Guest, HomeRouter'')"
proof -
  let ?m = "''aa:bb:cc:dd:ee:ff''"
  let ?g = "[crow ?m ''HomeRouter'' 0 51.5 (- 0.12), crow ?m ''Guest'' 7200 51.6 (- 0.12)]"
  have g: "filter (\<lambda>x. c_mac x = ?m) (drop_invalid two_ssid_rows) = ?g"
    by (simp add: two_ssid_clean crow_def)
  have mem: "?m \<in> c_mac ` set (drop_invalid two_ssid_rows)"
    by (simp add: two_ssid_clean crow_def)
  have "compute_max_distance ?g = 6371000 * (pi / 1800)"
    using london_spread
    by (simp add: compute_max_distance_spec crow_def spec_max_spread_pair)
  then have sp: "300 \<le> compute_max_distance (filter (\<lambda>x. c_mac x = ?m) (drop_invalid two_ssid_rows))"
    using london_spread_flagged by (simp only: g)
  have rec: "\<forall>rnd. \<exists>r. r \<in> set (main rnd two_ssid_rows)
        \<and> f_mac r = ?m \<and> f_detections r = 2 \<and> f_ssid r = ''Guest, HomeRouter''"
  proof
    fix rnd
    note k = records_keyed_by_mac [of rnd two_ssid_rows]
    from k mem sp have "?m \<in> set (map f_mac (main rnd two_ssid_rows))" by blast
    then obtain r where r: "r \<in> set (main rnd two_ssid_rows)" "f_mac r = ?m" by auto
    with k have "f_detections r = length (filter (\<lambda>x. c_mac x = ?m) (drop_invalid two_ssid_rows))"
      and "f_ssid r = join '', '' (sorted_set (dropna (map c_ssid
                  (filter (\<lambda>x. c_mac x = ?m) (drop_invalid two_ssid_rows)))))"
      by auto
    then have "f_detections r = 2" "f_ssid r = ''Guest, HomeRouter''"
      by (simp_all add: g crow_def dropna_def sorted_set_example)
    with r show "\<exists>r. r \<in> set (main rnd two_ssid_rows)
        \<and> f_mac r = ?m \<and> f_detections r = 2 \<and> f_ssid r = ''Guest, HomeRouter''"
      by blast
  qed
  from mem sp rec show ?thesis by blast
qed

section \<open>First and last seen, and detections whose time did not parse\<close>

subsection \<open>The builtins \<open>min\<close> and \<open>max\<close> in Step 5\<close>

lemma Min_insert_min:
  "finite S \<Longrightarrow> Min (insert a (insert b S)) = Min (insert (min a (b::real)) S)"
proof (cases "S = {}")
  case True
  then show ?thesis by (simp add: min.commute)
next
  case False
  assume "finite S"
  with False show ?thesis by (simp add: min.assoc)
qed

lemma Max_insert_max:
  "finite S \<Longrightarrow> Max (insert a (insert b S)) = Max (insert (max a (b::real)) S)"
proof (cases "S = {}")
  case True
  then show ?thesis by (simp add: max.commute)
next
  case False
  assume "finite S"
  with False show ?thesis by (simp add: max.assoc)
qed

lemma py_min_fold_head:
  "foldl (\<lambda>m x. if ts_lt x m then x else m) (Some t) xs
     = Some (Min (insert t (set (dropna xs))))"
proof (induction xs arbitrary: t)
  case Nil
  show ?case by (simp add: dropna_def)
next
  case (Cons a xs)
  show ?case
  proof (cases a)
    case None
    have "foldl (\<lambda>m x. if ts_lt x m then x else m) (Some t) (a # xs)
        = foldl (\<lambda>m x. if ts_lt x m then x else m) (Some t) xs"
      by (simp add: None ts_lt_def)
    also have "\<dots> = Some (Min (insert t (set (dropna xs))))" by (rule Cons.IH)
    finally show ?thesis by (simp add: None dropna_def)
  next
    case (Some x)
    have "foldl (\<lambda>m x. if ts_lt x m then x else m) (Some t) (a # xs)
        = foldl (\<lambda>m x. if ts_lt x m then x else m) (Some (min t x)) xs"
      by (simp add: Some ts_lt_def min_def)
    also have "\<dots> = Some (Min (insert (min t x) (set (dropna xs))))" by (rule Cons.IH)
    also have "\<dots> = Some (Min (insert t (insert x (set (dropna xs)))))"
      by (simp only: Min_insert_min [OF finite_set])
    finally show ?thesis by (simp add: Some dropna_def)
  qed
qed

lemma py_max_fold_head:
  "foldl (\<lambda>m x. if ts_lt m x then x else m) (Some t) xs
     = Some (Max (insert t (set (dropna xs))))"
proof (induction xs arbitrary: t)
  case Nil
  show ?case by (simp add: dropna_def)
next
  case (Cons a xs)
  show ?case
  proof (cases a)
    case None
    have "foldl (\<lambda>m x. if ts_lt m x then x else m) (Some t) (a # xs)
        = foldl (\<lambda>m x. if ts_lt m x then x else m) (Some t) xs"
      by (simp add: None ts_lt_def)
    also have "\<dots> = Some (Max (insert t (set (dropna xs))))" by (rule Cons.IH)
    finally show ?thesis by (simp add: None dropna_def)
  next
    case (Some x)
    have "foldl (\<lambda>m x. if ts_lt m x then x else m) (Some t) (a # xs)
        = foldl (\<lambda>m x. if ts_lt m x then x else m) (Some (max t x)) xs"
      by (simp add: Some ts_lt_def max_def)
    also have "\<dots> = Some (Max (insert (max t x) (set (dropna xs))))" by (rule Cons.IH)
    also have "\<dots> = Some (Max (insert t (insert x (set (dropna xs)))))"
      by (simp only: Max_insert_max [OF finite_set])
    finally show ?thesis by (simp add: Some dropna_def)
  qed
qed

text \<open>
  The builtins agree with \<open>Series.min\<close> and \<open>Series.max\<close> on a list whose first
  timestamp parsed, whatever the later ones.
\<close>

lemma py_min_head_parsed:
  "py_min (Some t # xs) = Inr (series_min (Some t # xs))"
  "py_max (Some t # xs) = Inr (series_max (Some t # xs))"
  by (simp_all add: py_min_fold_head py_max_fold_head series_min_def series_max_def dropna_def)

text \<open>
  A leading \<open>NaT\<close> is kept by the builtins to the end, since every comparison with it
  is false.
\<close>

lemma py_min_fold_unparsed:
  "foldl (\<lambda>m x. if ts_lt x m then x else m) None xs = None"
  "foldl (\<lambda>m x. if ts_lt m x then x else m) None xs = None"
  by (induction xs) (simp_all add: ts_lt_def split: option.splits)

lemma py_min_head_unparsed:
  "py_min (None # xs) = Inr None"
  "py_max (None # xs) = Inr None"
  by (simp_all add: py_min_fold_unparsed)

lemma step5_group_seen:
  "step5_group m s (r # rs) =
     Inr \<lparr>ct_mac = m, ct_ssid = s,
          ct_classification = spec_classify (map (\<lambda>r. (latitude r, longitude r)) (r # rs)),
          ct_first_seen = (case time_dt r of None \<Rightarrow> None
                           | Some t \<Rightarrow> series_min (map time_dt (r # rs))),
          ct_last_seen = (case time_dt r of None \<Rightarrow> None
                          | Some t \<Rightarrow> series_max (map time_dt (r # rs))),
          ct_source_files = join '', '' (sorted_set (map source_file (r # rs))),
          ct_max_dist = spec_max_spread (map (\<lambda>r. (latitude r, longitude r)) (r # rs))\<rparr>"
proof (cases "time_dt r")
  case None
  then show ?thesis
    by (simp add: step5_group_def Let_def ct_classify_spec py_min_fold_unparsed)
next
  case (Some t)
  then show ?thesis
    by (simp add: step5_group_def Let_def ct_classify_spec py_min_fold_head py_max_fold_head
        series_min_def series_max_def dropna_def)
qed

text \<open>
  With a date range, no row whose time did not parse leaves Step 4; without one, all
  of them do.
\<close>

lemma step4_date_range_parsed:
  "step4 (Some (start_dt, end_dt)) df = Inr df' \<Longrightarrow> list_all (\<lambda>r. time_dt r \<noteq> None) df'"
  by (auto simp: step4_def Let_def list_all_iff split: if_splits option.splits)

lemma step4_no_date_range:
  "step4 None df = Inr (filter (\<lambda>r. latitude r \<noteq> 0 \<and> longitude r \<noteq> 0) df)"
  by (simp add: step4_def)

text \<open>
  \<open>AccessPointClassifier.classify\<close> takes the first and last seen times with
  \<open>Series.min\<close> and \<open>Series.max\<close>: over exactly the timestamps that parsed, absent
  when none did; the spread is over all the detections of the group.
\<close>

lemma classify_group_seen:
  "first_seen (classify_group m s g)
     = (if dropna (map time_dt g) = [] then None else Some (Min (set (dropna (map time_dt g)))))"
  "last_seen (classify_group m s g)
     = (if dropna (map time_dt g) = [] then None else Some (Max (set (dropna (map time_dt g)))))"
  by (simp_all add: classify_group_def Let_def case_prod_unfold series_min_def series_max_def)

lemma leading_unparsed_spread:
  "spec_max_spread (map (\<lambda>r. (latitude r, longitude r)) leading_unparsed_rows) = 0"
  by (simp add: leading_unparsed_rows_def det_at_def spec_max_spread_def pair_dists_def
      haversine_same)

text \<open>
  Claim C5 fails in Step 5 of \<open>co_traveler_analysis.py\<close>.  When the date range is
  declined the three detections of \<open>leading_unparsed_rows\<close> pass Step 4 unchanged and
  form one group.  Its label and spread are taken over all three, but
  \<open>min(times)\<close> and \<open>max(times)\<close> return the \<open>NaT\<close> of the first detection: first
  and last seen are absent although two timestamps parsed, where the minimum and the
  maximum over the parseable timestamps are 3600 and 7200.
  \<open>AccessPointClassifier.classify\<close>, on the same group, reports 3600 and 7200.
\<close>

theorem first_seen_lost_after_unparsed:
  "step4 None leading_unparsed_rows = Inr leading_unparsed_rows
   \<and> step5_group ''aa:bb:cc:dd:ee:ff'' ''HomeRouter'' leading_unparsed_rows
       = Inr \<lparr>ct_mac = ''aa:bb:cc:dd:ee:ff'', ct_ssid = ''HomeRouter'',
              ct_classification = Static, ct_first_seen = None, ct_last_seen = None,
              ct_source_files = ''wigle_01-01-2025.csv'', ct_max_dist = 0\<rparr>
   \<and> series_min (map time_dt leading_unparsed_rows) = Some 3600
   \<and> series_max (map time_dt leading_unparsed_rows) = Some 7200
   \<and> first_seen (classify_group ''aa:bb:cc:dd:ee:ff'' ''HomeRouter'' leading_unparsed_rows)
       = Some 3600
   \<and> last_seen (classify_group ''aa:bb:cc:dd:ee:ff'' ''HomeRouter'' leading_unparsed_rows)
       = Some 7200"
proof -
  let ?m = "''aa:bb:cc:dd:ee:ff''"
  let ?s = "''HomeRouter''"
  have 1: "step4 None leading_unparsed_rows = Inr leading_unparsed_rows"
    by (simp add: step4_def leading_unparsed_rows_def det_at_def)
  have sp: "spec_max_spread (map (\<lambda>r. (latitude r, longitude r)) leading_unparsed_rows) = 0"
    by (rule leading_unparsed_spread)
  have cl: "spec_classify (map (\<lambda>r. (latitude r, longitude r)) leading_unparsed_rows) = Static"
    unfolding spec_classify_def sp by (simp add: leading_unparsed_rows_def)
  have src: "join '', '' (sorted_set (map source_file leading_unparsed_rows))
      = ''wigle_01-01-2025.csv''"
    by (simp add: leading_unparsed_rows_def det_at_def sorted_set_def)
  have "step5_group ?m ?s (det_at None 51.5 (- 0.12)
          # [det_at (Some 3600) 51.5 (- 0.12), det_at (Some 7200) 51.5 (- 0.12)])
      = Inr \<lparr>ct_mac = ?m, ct_ssid = ?s,
             ct_classification = spec_classify (map (\<lambda>r. (latitude r, longitude r))
               (det_at None 51.5 (- 0.12)
                # [det_at (Some 3600) 51.5 (- 0.12), det_at (Some 7200) 51.5 (- 0.12)])),
             ct_first_seen = None, ct_last_seen = None,
             ct_source_files = join '', '' (sorted_set (map source_file
               (det_at None 51.5 (- 0.12)
                # [det_at (Some 3600) 51.5 (- 0.12), det_at (Some 7200) 51.5 (- 0.12)]))),
             ct_max_dist = spec_max_spread (map (\<lambda>r. (latitude r, longitude r))
               (det_at None 51.5 (- 0.12)
                # [det_at (Some 3600) 51.5 (- 0.12), det_at (Some 7200) 51.5 (- 0.12)]))\<rparr>"
    by (subst step5_group_seen) (simp add: det_at_def)
  then have 2: "step5_group ?m ?s leading_unparsed_rows
       = Inr \<lparr>ct_mac = ?m, ct_ssid = ?s,
              ct_classification = Static, ct_first_seen = None, ct_last_seen = None,
              ct_source_files = ''wigle_01-01-2025.csv'', ct_max_dist = 0\<rparr>"
    using sp cl src by (simp only: leading_unparsed_rows_def)
  have d: "dropna (map time_dt leading_unparsed_rows) = [3600, 7200]"
    by (simp add: leading_unparsed_rows_def det_at_def dropna_def)
  have 3: "series_min (map time_dt leading_unparsed_rows) = Some 3600"
    and 4: "series_max (map time_dt leading_unparsed_rows) = Some 7200"
    by (simp_all add: series_min_def series_max_def d)
  have 5: "first_seen (classify_group ?m ?s leading_unparsed_rows) = Some 3600"
    and 6: "last_seen (classify_group ?m ?s leading_unparsed_rows) = Some 7200"
    by (simp_all add: classify_group_seen d)
  from 1 2 3 4 5 6 show ?thesis by blast
qed

text \<open>
  Where the first timestamp of the group parsed, Step 5 reports the minimum and the
  maximum over exactly the timestamps that parsed.
\<close>

lemma step5_seen_when_first_parses:
  assumes "time_dt r = Some t"
  shows "\<exists>res. step5_group m s (r # rs) = Inr res
     \<and> ct_first_seen res = Some (Min (set (dropna (map time_dt (r # rs)))))
     \<and> ct_last_seen res = Some (Max (set (dropna (map time_dt (r # rs)))))"
  using assms by (simp add: step5_group_seen series_min_def series_max_def dropna_def)

subsection \<open>\<open>flagged_signals_analysis.py\<close> drops the rows whose time did not parse\<close>

lemma to_clean_unparsed: "w_time_dt r = None \<Longrightarrow> to_clean r = None"
  by (simp add: to_clean_def split: option.splits)

lemma drop_invalid_ignores_unparsed:
  "drop_invalid (filter (\<lambda>r. w_time_dt r \<noteq> None) df) = drop_invalid df"
proof (induction df)
  case Nil
  show ?case by simp
next
  case (Cons a df)
  from Cons.IH have IH: "List.map_filter to_clean (filter (\<lambda>r. w_time_dt r \<noteq> None) df)
      = List.map_filter to_clean df"
    by (simp only: drop_invalid_def)
  show ?case
  proof (cases "w_time_dt a")
    case None
    then show ?thesis by (simp add: drop_invalid_def to_clean_unparsed IH del: not_None_eq)
  next
    case (Some t)
    then show ?thesis by (simp add: drop_invalid_def IH del: not_None_eq split: option.split)
  qed
qed

lemma main_ignores_unparsed: "main rnd (filter (\<lambda>r. w_time_dt r \<noteq> None) df) = main rnd df"
  by (simp only: main_def drop_invalid_ignores_unparsed)

lemma main_seen:
  assumes "r \<in> set (main rnd df)"
  shows "f_first_seen r
          = Min (set (map c_time_dt (filter (\<lambda>x. c_mac x = f_mac r) (drop_invalid df))))"
    and "f_last_seen r
          = Max (set (map c_time_dt (filter (\<lambda>x. c_mac x = f_mac r) (drop_invalid df))))"
  using flag_group_fields(3,4) [OF main_group [OF assms]] by simp_all

lemma unparsed_time_clean:
  "drop_invalid unparsed_time_rows = [crow ''aa:bb:cc:dd:ee:ff'' ''HomeRouter'' 0 51.5 (- 0.12)]"
  by (simp add: drop_invalid_def unparsed_time_rows_def to_clean_def wrow_def crow_def)

text \<open>
  Of the two detections of \<open>unparsed_time_rows\<close>, 11 km apart, the one whose
  timestamp did not parse is dropped by the \<open>dropna\<close> on \<open>time_dt\<close>; the spread of
  what is left is 0, and the MAC is not flagged.
\<close>

lemma unparsed_time_dropped_from_spread:
  "compute_max_distance (drop_invalid unparsed_time_rows) = 0
   \<and> main rnd unparsed_time_rows = []
   \<and> spec_max_spread [(51.5, - 0.12), (51.6, - 0.12)] = 6371000 * (pi / 1800)"
proof -
  have 1: "compute_max_distance (drop_invalid unparsed_time_rows) = 0"
    by (simp add: unparsed_time_clean compute_max_distance_def)
  have "groupby c_mac (drop_invalid unparsed_time_rows)
      = [(''aa:bb:cc:dd:ee:ff'', [crow ''aa:bb:cc:dd:ee:ff'' ''HomeRouter'' 0 51.5 (- 0.12)])]"
    by (simp add: unparsed_time_clean groupby_def crow_def)
  then have 2: "main rnd unparsed_time_rows = []"
    by (simp add: main_def flag_group_def compute_max_distance_def)
  have 3: "spec_max_spread [(51.5, - 0.12), (51.6, - 0.12)] = 6371000 * (pi / 1800)"
    using london_spread by (simp add: spec_max_spread_pair)
  from 1 2 3 show ?thesis by blast
qed

end
